theory Spec2Isabelle
  imports Complex_Main "HOL-Library.AList"
begin

section \<open>Numbers, vectors and configuration\<close>

text \<open>
  The program is TypeScript; its \<open>number\<close>s are IEEE 754 doubles.  A \<open>number\<close> that
  carries a grid index or a counter is modelled as an \<^typ>\<open>int\<close> or a \<^typ>\<open>nat\<close>, any other
  as a \<^typ>\<open>real\<close>.  The integrator \<open>applyPhysics\<close> and the frame loop \<open>animate\<close> are
  modelled in double arithmetic: every operation rounds its exact result with \<open>fl\<close>, and a
  decimal literal denotes the double nearest to it.  The collision resolver and the level
  generator are modelled with the arithmetic of the code read exactly.

  \<open>fl x\<close> is the double nearest to \<open>x\<close>, ties to the even significand (\<open>rne\<close>), with a
  significand of 53 bits and the smallest exponent \<open>- 1022\<close>, below which the spacing stays
  \<open>2 powr (- 1074)\<close> (the subnormal numbers).  The exponent is not bounded above in \<open>fl\<close>: the
  code holds \<open>Infinity\<close> where the rounded result reaches \<open>2 ^ 1024\<close>, which is the
  predicate \<open>overflow\<close>.  The model follows \<open>Infinity\<close> through the computation of the
  horizontal speed (\<open>ext\<close> below), where it arises from finite velocities; a velocity or a
  position that is itself infinite is outside the model.
\<close>

definition rne :: "real \<Rightarrow> int" where
  "rne y = (if y - of_int \<lfloor>y\<rfloor> < 1 / 2 then \<lfloor>y\<rfloor>
            else if y - of_int \<lfloor>y\<rfloor> > 1 / 2 then \<lfloor>y\<rfloor> + 1
            else if even \<lfloor>y\<rfloor> then \<lfloor>y\<rfloor> else \<lfloor>y\<rfloor> + 1)"

definition expo :: "real \<Rightarrow> int" where
  "expo x = max \<lfloor>log 2 \<bar>x\<bar>\<rfloor> (- 1022)"

definition quantum :: "real \<Rightarrow> real" where
  "quantum x = 2 powr (of_int (expo x) - 52)"

definition fl :: "real \<Rightarrow> real" where
  "fl x = (if x = 0 then 0 else of_int (rne (x / quantum x)) * quantum x)"

definition overflow :: "real \<Rightarrow> bool" where
  "overflow x = (2 ^ 1024 \<le> \<bar>fl x\<bar>)"

text \<open>
  A double that is not negative, or \<open>Infinity\<close>, with the operations that the integrator
  applies to it: the square \<open>x ** 2\<close> (the rounded product), the sum, \<open>Math.sqrt\<close> (the
  rounded root), the comparison \<open>hSpeed > maxSpeed\<close> and the quotient \<open>maxSpeed / hSpeed\<close>.
\<close>

datatype ext = Fin real | PInf

definition sqD :: "real \<Rightarrow> ext" where
  "sqD x = (if overflow (x * x) then PInf else Fin (fl (x * x)))"

fun addD :: "ext \<Rightarrow> ext \<Rightarrow> ext" where
  "addD (Fin a) (Fin b) = (if overflow (a + b) then PInf else Fin (fl (a + b)))"
| "addD a b = PInf"

fun sqrtD :: "ext \<Rightarrow> ext" where
  "sqrtD (Fin a) = Fin (fl (sqrt a))"
| "sqrtD PInf = PInf"

fun exceeds :: "ext \<Rightarrow> real \<Rightarrow> bool" where
  "exceeds (Fin a) m = (a > m)"
| "exceeds PInf m = True"

fun divD :: "real \<Rightarrow> ext \<Rightarrow> real" where
  "divD m (Fin a) = fl (m / a)"
| "divD m PInf = 0"

text \<open>
  A \<open>THREE.Vector3\<close> is a record of three reals; the methods used by the code (\<open>add\<close>,
  \<open>multiplyScalar\<close>, \<open>divideScalar\<close>, \<open>dot\<close>, \<open>normalize\<close>) are the functions below,
  \<open>addV\<close> being \<open>add\<close> in double arithmetic.
\<close>

record vec3 =
  xc :: real
  yc :: real
  zc :: real

abbreviation V3 :: "real \<Rightarrow> real \<Rightarrow> real \<Rightarrow> vec3" where
  "V3 a b c \<equiv> \<lparr>xc = a, yc = b, zc = c\<rparr>"

definition add3 :: "vec3 \<Rightarrow> vec3 \<Rightarrow> vec3" where
  "add3 u w = \<lparr>xc = xc u + xc w, yc = yc u + yc w, zc = zc u + zc w\<rparr>"

definition addV :: "vec3 \<Rightarrow> vec3 \<Rightarrow> vec3" where
  "addV u w = \<lparr>xc = fl (xc u + xc w), yc = fl (yc u + yc w), zc = fl (zc u + zc w)\<rparr>"

definition multiplyScalar :: "vec3 \<Rightarrow> real \<Rightarrow> vec3" where
  "multiplyScalar u s = \<lparr>xc = xc u * s, yc = yc u * s, zc = zc u * s\<rparr>"

definition divideScalar :: "vec3 \<Rightarrow> real \<Rightarrow> vec3" where
  "divideScalar u s = multiplyScalar u (1 / s)"

definition dot :: "vec3 \<Rightarrow> vec3 \<Rightarrow> real" where
  "dot u w = xc u * xc w + yc u * yc w + zc u * zc w"

definition length3 :: "vec3 \<Rightarrow> real" where
  "length3 u = sqrt (xc u * xc u + yc u * yc u + zc u * zc u)"

definition normalize :: "vec3 \<Rightarrow> vec3" where
  "normalize u = divideScalar u (if length3 u = 0 then 1 else length3 u)"

lemma vec3_simps [simp]:
  "xc (add3 u w) = xc u + xc w" "yc (add3 u w) = yc u + yc w" "zc (add3 u w) = zc u + zc w"
  "xc (multiplyScalar u s) = xc u * s" "yc (multiplyScalar u s) = yc u * s"
  "zc (multiplyScalar u s) = zc u * s"
  by (simp_all add: add3_def multiplyScalar_def)

lemma vec3_eqI: "xc u = xc w \<Longrightarrow> yc u = yc w \<Longrightarrow> zc u = zc w \<Longrightarrow> (u::vec3) = w"
  by simp

text \<open>The constants \<open>CONFIG\<close> and \<open>PHYSICS\<close> of the constants module.\<close>

definition blockSize :: real where "blockSize = 40"
definition gravity :: real where "gravity = fl 0.65"
definition jumpForce :: real where "jumpForce = 14"
definition moveSpeed :: real where "moveSpeed = 1.2"
definition friction :: real where "friction = fl 0.82"
definition maxSpeed :: real where "maxSpeed = 10"
definition playerRadius :: real where "playerRadius = 20"
definition collisionRange :: real where "collisionRange = 80"
definition coyoteFrames :: int where "coyoteFrames = 5"

section \<open>The data model\<close>

datatype BlockType = Standard | Spike

record BlockData =
  minB :: vec3
  maxB :: vec3
  center :: vec3
  gx :: int
  gy :: int
  gz :: int
  typeB :: BlockType
  idB :: nat

record PlayerState =
  pos :: vec3
  vel :: vec3
  grounded :: bool
  coyoteTime :: int

text \<open>The fields \<open>w\<close>, \<open>a\<close>, \<open>s\<close>, \<open>d\<close> and \<open>space\<close> of \<open>InputState\<close>.\<close>

record InputState =
  keyW :: bool
  keyA :: bool
  keyS :: bool
  keyD :: bool
  keySpace :: bool

section \<open>The integrator\<close>

text \<open>\<open>PhysicsEngine.applyPhysics\<close>, statement by statement, in double arithmetic.\<close>

definition applyPhysics :: "PlayerState \<Rightarrow> vec3 \<Rightarrow> PlayerState" where
  "applyPhysics player inputForce =
    (let v1 = addV (vel player) inputForce;
         v2 = v1\<lparr>xc := fl (xc v1 * friction), zc := fl (zc v1 * friction)\<rparr>;
         v3 = v2\<lparr>yc := fl (yc v2 - gravity)\<rparr>;
         hSpeed = sqrtD (addD (sqD (xc v3)) (sqD (zc v3)));
         v4 = (if exceeds hSpeed maxSpeed
               then (let ratio = divD maxSpeed hSpeed
                     in v3\<lparr>xc := fl (xc v3 * ratio), zc := fl (zc v3 * ratio)\<rparr>)
               else v3)
     in player\<lparr>vel := v4, pos := addV (pos player) v4\<rparr>)"


text \<open>
  The five phases of the integrator as the specification words them, each a function of
  its own, to be compared with \<open>applyPhysics\<close>.  \<open>hSpeedOf\<close> is the horizontal speed as
  the code computes it, \<open>speedXZ\<close> the exact horizontal speed of a velocity.
\<close>

definition hSpeedOf :: "vec3 \<Rightarrow> ext" where
  "hSpeedOf v = sqrtD (addD (sqD (xc v)) (sqD (zc v)))"

definition speedXZ :: "vec3 \<Rightarrow> real" where
  "speedXZ v = sqrt ((xc v)\<^sup>2 + (zc v)\<^sup>2)"

definition addInputForce :: "PlayerState \<Rightarrow> vec3 \<Rightarrow> PlayerState" where
  "addInputForce p f = p\<lparr>vel := addV (vel p) f\<rparr>"

definition applyFriction :: "PlayerState \<Rightarrow> PlayerState" where
  "applyFriction p =
     p\<lparr>vel := (vel p)\<lparr>xc := fl (xc (vel p) * friction), zc := fl (zc (vel p) * friction)\<rparr>\<rparr>"

definition applyGravity :: "PlayerState \<Rightarrow> PlayerState" where
  "applyGravity p = p\<lparr>vel := (vel p)\<lparr>yc := fl (yc (vel p) - gravity)\<rparr>\<rparr>"

definition clampHorizontal :: "PlayerState \<Rightarrow> PlayerState" where
  "clampHorizontal p =
    (if exceeds (hSpeedOf (vel p)) maxSpeed
     then p\<lparr>vel := (vel p)\<lparr>xc := fl (xc (vel p) * divD maxSpeed (hSpeedOf (vel p))),
                             zc := fl (zc (vel p) * divD maxSpeed (hSpeedOf (vel p)))\<rparr>\<rparr>
     else p)"

definition integratePosition :: "PlayerState \<Rightarrow> PlayerState" where
  "integratePosition p = p\<lparr>pos := addV (pos p) (vel p)\<rparr>"

section \<open>The block index\<close>

text \<open>
  \<open>BlockMap\<close> is a JavaScript \<open>Map\<close> whose keys are the strings
  \<open>`${gx},${gy},${gz}`\<close>.  Printing three integers with commas between them is
  injective, so a key is modelled as the triple itself.  The map is an association list in
  insertion order: \<open>set\<close> on a key already present replaces the value in place, on a
  new key appends an entry (\<^const>\<open>AList.update\<close>), and \<open>size\<close> is the length.
\<close>

type_synonym key = "int \<times> int \<times> int"
type_synonym BlockMap = "(key \<times> BlockData) list"

definition mapGet :: "BlockMap \<Rightarrow> key \<Rightarrow> BlockData option" where
  "mapGet m k = map_of m k"

definition mapHas :: "BlockMap \<Rightarrow> key \<Rightarrow> bool" where
  "mapHas m k = (map_of m k \<noteq> None)"

definition mapSet :: "BlockMap \<Rightarrow> key \<Rightarrow> BlockData \<Rightarrow> BlockMap" where
  "mapSet m k v = AList.update k v m"

definition mapSize :: "BlockMap \<Rightarrow> nat" where
  "mapSize m = length m"

section \<open>The collision resolver of \<open>services/PhysicsEngine.ts\<close>\<close>

definition clamp :: "real \<Rightarrow> real \<Rightarrow> real \<Rightarrow> real" where
  "clamp v lo hi = max lo (min hi v)"

definition sqr :: "real \<Rightarrow> real" where
  "sqr v = v * v"

text \<open>\<open>Math.sign\<close>, whose result is added to a grid index.\<close>

definition signJS :: "real \<Rightarrow> int" where
  "signJS v = (if v > 0 then 1 else if v < 0 then - 1 else 0)"

definition getNeighbor :: "BlockMap \<Rightarrow> int \<Rightarrow> int \<Rightarrow> int \<Rightarrow> BlockData option" where
  "getNeighbor blockMap x y z = mapGet blockMap (x, y, z)"

text \<open>
  \<open>tryMergeWithNeighbor\<close>: the loop over the neighbours that exist returns the box
  merged with the first one that is Standard, on the same layer and face to face.
\<close>

fun mergeFirst :: "BlockData \<Rightarrow> BlockData list \<Rightarrow> (vec3 \<times> vec3) option" where
  "mergeFirst block [] = None"
| "mergeFirst block (nb # nbs) =
    (if typeB nb \<noteq> Standard then mergeFirst block nbs
     else if gy nb \<noteq> gy block then mergeFirst block nbs
     else (let touchesX = (gz nb = gz block \<and> \<bar>gx nb - gx block\<bar> = 1);
               touchesZ = (gx nb = gx block \<and> \<bar>gz nb - gz block\<bar> = 1)
           in if \<not> touchesX \<and> \<not> touchesZ then mergeFirst block nbs
              else Some (V3 (min (xc (minB block)) (xc (minB nb)))
                            (min (yc (minB block)) (yc (minB nb)))
                            (min (zc (minB block)) (zc (minB nb))),
                         V3 (max (xc (maxB block)) (xc (maxB nb)))
                            (max (yc (maxB block)) (yc (maxB nb)))
                            (max (zc (maxB block)) (zc (maxB nb))))))"

definition tryMergeWithNeighbor :: "BlockData \<Rightarrow> BlockMap \<Rightarrow> (vec3 \<times> vec3) option" where
  "tryMergeWithNeighbor block blockMap =
    (if typeB block \<noteq> Standard then None
     else mergeFirst block (List.map_filter (\<lambda>n. n)
            [getNeighbor blockMap (gx block + 1) (gy block) (gz block),
             getNeighbor blockMap (gx block - 1) (gy block) (gz block),
             getNeighbor blockMap (gx block) (gy block) (gz block + 1),
             getNeighbor blockMap (gx block) (gy block) (gz block - 1)]))"

text \<open>
  \<open>mergeAllConnectedOnLayer\<close>: the breadth-first flood fill.  \<open>floodFill\<close> is its
  \<open>while (queue.length)\<close> loop, on the queue, the visited keys and the running bounds.
\<close>

definition unvisitedKeys :: "key list \<Rightarrow> BlockMap \<Rightarrow> nat" where
  "unvisitedKeys visited blockMap = length (filter (\<lambda>q. q \<notin> set visited) (map fst blockMap))"

lemma unvisitedKeys_less:
  assumes "k \<in> fst ` set blockMap" "k \<notin> set visited"
  shows "unvisitedKeys (k # visited) blockMap < unvisitedKeys visited blockMap"
proof -
  let ?ks = "filter (\<lambda>q. q \<notin> set visited) (map fst blockMap)"
  have "filter (\<lambda>q. q \<notin> set (k # visited)) (map fst blockMap) = filter (\<lambda>q. q \<noteq> k) ?ks"
    by (simp add: conj_commute)
  moreover have "length (filter (\<lambda>q. q \<noteq> k) ?ks) < length ?ks"
    using assms by (intro length_filter_less [of k]) auto
  ultimately show ?thesis unfolding unvisitedKeys_def by simp
qed

lemma unvisitedKeys_same:
  assumes "k \<notin> fst ` set blockMap"
  shows "unvisitedKeys (k # visited) blockMap = unvisitedKeys visited blockMap"
proof -
  have "filter (\<lambda>q. q \<notin> set (k # visited)) (map fst blockMap)
      = filter (\<lambda>q. q \<notin> set visited) (map fst blockMap)"
    using assms by (intro filter_cong) auto
  then show ?thesis unfolding unvisitedKeys_def by simp
qed

lemma mapGet_Some_key: "mapGet blockMap k = Some b \<Longrightarrow> k \<in> fst ` set blockMap"
  by (auto simp: mapGet_def dest: map_of_SomeD intro: rev_image_eqI)

lemma mapGet_None_key: "mapGet blockMap k = None \<Longrightarrow> k \<notin> fst ` set blockMap"
  by (simp add: mapGet_def map_of_eq_None_iff)

function floodFill ::
  "BlockData \<Rightarrow> BlockMap \<Rightarrow> key list \<Rightarrow> key list \<Rightarrow> vec3 \<times> vec3 \<Rightarrow> vec3 \<times> vec3" where
  "floodFill start blockMap [] visited acc = acc"
| "floodFill start blockMap (k # queue) visited acc =
    (if k \<in> set visited then floodFill start blockMap queue visited acc
     else (case mapGet blockMap k of
             None \<Rightarrow> floodFill start blockMap queue (k # visited) acc
           | Some b \<Rightarrow>
               if typeB b \<noteq> Standard \<or> gy b \<noteq> gy start
               then floodFill start blockMap queue (k # visited) acc
               else floodFill start blockMap
                      (queue @ [(fst k + 1, fst (snd k), snd (snd k)),
                                (fst k - 1, fst (snd k), snd (snd k)),
                                (fst k, fst (snd k), snd (snd k) + 1),
                                (fst k, fst (snd k), snd (snd k) - 1)])
                      (k # visited)
                      (V3 (min (xc (fst acc)) (xc (minB b)))
                          (min (yc (fst acc)) (yc (minB b)))
                          (min (zc (fst acc)) (zc (minB b))),
                       V3 (max (xc (snd acc)) (xc (maxB b)))
                          (max (yc (snd acc)) (yc (maxB b)))
                          (max (zc (snd acc)) (zc (maxB b))))))"
  by pat_completeness auto
termination
proof (relation "measures
    [\<lambda>(start, blockMap, queue, visited, acc). unvisitedKeys visited blockMap,
     \<lambda>(start, blockMap, queue, visited, acc). length queue]", goal_cases)
  case 1
  show ?case by simp
next
  case (2 start blockMap k queue visited acc)
  then show ?case by simp
next
  case (3 start blockMap k queue visited acc)
  then show ?case by (simp add: unvisitedKeys_same [OF mapGet_None_key])
next
  case (4 start blockMap k queue visited acc b)
  then show ?case by (simp add: unvisitedKeys_less [OF mapGet_Some_key])
next
  case (5 start blockMap k queue visited acc b)
  then show ?case by (simp add: unvisitedKeys_less [OF mapGet_Some_key])
qed

definition mergeAllConnectedOnLayer :: "BlockData \<Rightarrow> BlockMap \<Rightarrow> vec3 \<times> vec3" where
  "mergeAllConnectedOnLayer start blockMap =
     floodFill start blockMap [(gx start, gy start, gz start)] [] (minB start, maxB start)"


text \<open>
  One iteration of the \<open>for (const b of blocks)\<close> loop of \<open>resolveCollisions\<close>.  The
  loop mutates \<open>player.pos\<close> and \<open>player.vel\<close> in place and keeps the local flag
  \<open>isGroundedThisFrame\<close>; an iteration either goes on with the player and the flag
  (\<open>Continue\<close>), or calls \<open>onReset()\<close> and returns from the whole function
  (\<open>Reset\<close>).  The debug counters and the \<open>console.log\<close> calls of the file read the
  player and never write it; they are left out.
\<close>

datatype blockResult = Reset | Continue PlayerState bool

definition inRange :: "vec3 \<Rightarrow> BlockData \<Rightarrow> bool" where
  "inRange p b =
     (\<not> (\<bar>xc (center b) - xc p\<bar> > collisionRange \<or>
         \<bar>yc (center b) - yc p\<bar> > collisionRange \<or>
         \<bar>zc (center b) - zc p\<bar> > collisionRange))"

definition collisionBox :: "BlockData \<Rightarrow> BlockMap \<Rightarrow> vec3 \<times> vec3" where
  "collisionBox b blockMap =
     (let merged = (if typeB b = Standard then Some (mergeAllConnectedOnLayer b blockMap)
                    else tryMergeWithNeighbor b blockMap)
      in case merged of Some m \<Rightarrow> m | None \<Rightarrow> (minB b, maxB b))"

definition distVec :: "vec3 \<Rightarrow> vec3 \<times> vec3 \<Rightarrow> vec3" where
  "distVec p box =
     (let closestX = clamp (xc p) (xc (fst box)) (xc (snd box));
          closestY = clamp (yc p) (yc (fst box)) (yc (snd box));
          closestZ = clamp (zc p) (zc (fst box)) (zc (snd box))
      in V3 (xc p - closestX) (yc p - closestY) (zc p - closestZ))"

definition distSqOf :: "vec3 \<Rightarrow> vec3 \<times> vec3 \<Rightarrow> real" where
  "distSqOf p box =
     (let dv = distVec p box in xc dv * xc dv + yc dv * yc dv + zc dv * zc dv)"

definition collides :: "vec3 \<Rightarrow> vec3 \<times> vec3 \<Rightarrow> bool" where
  "collides p box =
     (distSqOf p box < playerRadius * playerRadius \<and> distSqOf p box > 0.00001)"

definition contactNormal :: "vec3 \<Rightarrow> vec3 \<times> vec3 \<Rightarrow> vec3" where
  "contactNormal p box = divideScalar (distVec p box) (sqrt (distSqOf p box))"

definition seamLikeOf :: "PlayerState \<Rightarrow> vec3 \<Rightarrow> bool" where
  "seamLikeOf player normal =
     (let absX = \<bar>xc normal\<bar>; absY = \<bar>yc normal\<bar>; absZ = \<bar>zc normal\<bar>;
          movingDown = (yc (vel player) < 0)
      in movingDown \<and> absY < 0.35 \<and> (absX > 0.5 \<or> absZ > 0.5))"

definition hasNeighborInNormalDir :: "BlockMap \<Rightarrow> BlockData \<Rightarrow> vec3 \<Rightarrow> bool" where
  "hasNeighborInNormalDir blockMap b normal =
     (let absX = \<bar>xc normal\<bar>; absY = \<bar>yc normal\<bar>; absZ = \<bar>zc normal\<bar>
      in if absY < 0.5
         then (if absX > absZ
               then mapHas blockMap (gx b + signJS (xc normal), gy b, gz b)
               else mapHas blockMap (gx b, gy b, gz b + signJS (zc normal)))
         else False)"

text \<open>The push-out, the cancelling of the velocity into the surface and the ground mark.\<close>

definition pushOut :: "PlayerState \<Rightarrow> bool \<Rightarrow> vec3 \<Rightarrow> real \<Rightarrow> blockResult" where
  "pushOut player isGroundedThisFrame normal penetration =
     (let p' = add3 (pos player) (multiplyScalar normal penetration);
          velAlongNormal = dot (vel player) normal
      in if velAlongNormal < 0
         then (let j = - velAlongNormal
               in Continue (player\<lparr>pos := p', vel := add3 (vel player) (multiplyScalar normal j)\<rparr>)
                    (if yc normal > 0.7 then True else isGroundedThisFrame))
         else Continue (player\<lparr>pos := p'\<rparr>) isGroundedThisFrame)"

definition resolveBlock :: "BlockMap \<Rightarrow> BlockData \<Rightarrow> PlayerState \<Rightarrow> bool \<Rightarrow> blockResult" where
  "resolveBlock blockMap b player isGroundedThisFrame =
     (if \<not> inRange (pos player) b then Continue player isGroundedThisFrame
      else (let box = collisionBox b blockMap
            in if collides (pos player) box
               then (if typeB b = Spike then Reset
                     else (let dist = sqrt (distSqOf (pos player) box);
                               normal = contactNormal (pos player) box;
                               penetration = playerRadius - dist;
                               seamLike = seamLikeOf player normal
                           in if \<not> (seamLike \<or> hasNeighborInNormalDir blockMap b normal)
                              then pushOut player isGroundedThisFrame normal penetration
                              else Continue player isGroundedThisFrame))
               else Continue player isGroundedThisFrame))"

text \<open>
  The loop over the blocks.  \<open>HazardHit\<close> carries the player as it is when \<open>onReset\<close>
  is called; \<open>Finished\<close> the player and the flag when the loop has run through.
\<close>

datatype loopResult = HazardHit PlayerState | Finished PlayerState bool

fun resolveLoop :: "BlockMap \<Rightarrow> BlockData list \<Rightarrow> PlayerState \<Rightarrow> bool \<Rightarrow> loopResult" where
  "resolveLoop blockMap [] player isGroundedThisFrame = Finished player isGroundedThisFrame"
| "resolveLoop blockMap (b # blocks) player isGroundedThisFrame =
    (case resolveBlock blockMap b player isGroundedThisFrame of
       Reset \<Rightarrow> HazardHit player
     | Continue player' g' \<Rightarrow> resolveLoop blockMap blocks player' g')"

text \<open>The state update after the loop.\<close>

definition stateUpdate :: "bool \<Rightarrow> PlayerState \<Rightarrow> PlayerState" where
  "stateUpdate isGroundedThisFrame player =
    (if isGroundedThisFrame then player\<lparr>grounded := True, coyoteTime := coyoteFrames\<rparr>
     else if coyoteTime player > 0 then player\<lparr>coyoteTime := coyoteTime player - 1\<rparr>
     else player\<lparr>grounded := False\<rparr>)"

text \<open>
  \<open>resolveCollisions(player, blocks, blockMap, onReset)\<close>.  The callback acts on the
  player, which it shares with the resolver, and on whatever else it closes over; that
  rest of the world is the component \<open>'e\<close>.  On a hazard the function calls \<open>onReset\<close>
  and returns at once, without the state update.
\<close>

definition resolveCollisions ::
  "PlayerState \<Rightarrow> BlockData list \<Rightarrow> BlockMap \<Rightarrow> (PlayerState \<times> 'e \<Rightarrow> PlayerState \<times> 'e) \<Rightarrow> 'e
     \<Rightarrow> PlayerState \<times> 'e" where
  "resolveCollisions player blocks blockMap onReset env =
    (case resolveLoop blockMap blocks player False of
       HazardHit player' \<Rightarrow> onReset (player', env)
     | Finished player' g \<Rightarrow> (stateUpdate g player', env))"

section \<open>The second collision resolver (the unnamed source file)\<close>

text \<open>
  The repository holds a second \<open>PhysicsEngine\<close> class with the same two methods.  Its
  \<open>applyPhysics\<close> is the one above; its \<open>resolveCollisions\<close> tests each block's own
  box and knows the neighbour rule only.  Its names carry the suffix \<open>_p0\<close>.
\<close>

definition ownBox :: "BlockData \<Rightarrow> vec3 \<times> vec3" where
  "ownBox b = (minB b, maxB b)"

definition isInternalEdge_p0 :: "BlockMap \<Rightarrow> BlockData \<Rightarrow> vec3 \<Rightarrow> bool" where
  "isInternalEdge_p0 blockMap b normal =
     (let absX = \<bar>xc normal\<bar>; absY = \<bar>yc normal\<bar>; absZ = \<bar>zc normal\<bar>
      in if absY < 0.5
         then (let neighborKey = (if absX > absZ
                                  then (gx b + signJS (xc normal), gy b, gz b)
                                  else (gx b, gy b, gz b + signJS (zc normal)))
               in mapHas blockMap neighborKey)
         else False)"

definition resolveBlock_p0 :: "BlockMap \<Rightarrow> BlockData \<Rightarrow> PlayerState \<Rightarrow> bool \<Rightarrow> blockResult" where
  "resolveBlock_p0 blockMap b player isGroundedThisFrame =
     (if \<not> inRange (pos player) b then Continue player isGroundedThisFrame
      else (let box = ownBox b
            in if collides (pos player) box
               then (if typeB b = Spike then Reset
                     else (let dist = sqrt (distSqOf (pos player) box);
                               normal = contactNormal (pos player) box;
                               penetration = playerRadius - dist
                           in if \<not> isInternalEdge_p0 blockMap b normal
                              then pushOut player isGroundedThisFrame normal penetration
                              else Continue player isGroundedThisFrame))
               else Continue player isGroundedThisFrame))"

fun resolveLoop_p0 :: "BlockMap \<Rightarrow> BlockData list \<Rightarrow> PlayerState \<Rightarrow> bool \<Rightarrow> loopResult" where
  "resolveLoop_p0 blockMap [] player isGroundedThisFrame = Finished player isGroundedThisFrame"
| "resolveLoop_p0 blockMap (b # blocks) player isGroundedThisFrame =
    (case resolveBlock_p0 blockMap b player isGroundedThisFrame of
       Reset \<Rightarrow> HazardHit player
     | Continue player' g' \<Rightarrow> resolveLoop_p0 blockMap blocks player' g')"

definition resolveCollisions_p0 ::
  "PlayerState \<Rightarrow> BlockData list \<Rightarrow> BlockMap \<Rightarrow> (PlayerState \<times> 'e \<Rightarrow> PlayerState \<times> 'e) \<Rightarrow> 'e
     \<Rightarrow> PlayerState \<times> 'e" where
  "resolveCollisions_p0 player blocks blockMap onReset env =
    (case resolveLoop_p0 blockMap blocks player False of
       HazardHit player' \<Rightarrow> onReset (player', env)
     | Finished player' g \<Rightarrow> (stateUpdate g player', env))"


section \<open>The game engine: reset, fixed update and the frame loop\<close>

text \<open>
  The fields of \<open>GameEngine\<close> that the physics reads or writes.  The two callbacks
  \<open>onStatusUpdate\<close> and \<open>onScoreUpdate\<close> are modelled by the lists of the values they
  were called with, \<open>setTimeout\<close> by the list of the pending (delay, message) pairs,
  \<open>renderer.render\<close> by a counter.  The camera belongs to the rendering library: its
  world direction is an argument \<open>camDir\<close> of the functions that read it.
\<close>

record GameEngine =
  player :: PlayerState
  input :: InputState
  blocksData :: "BlockData list"
  blockMap :: BlockMap
  winHeight :: real
  lastTime :: real
  accumulator :: real
  statusLog :: "string list"
  scoreLog :: "int list"
  timeouts :: "(nat \<times> string) list"
  renders :: nat

definition TIME_STEP :: real where
  "TIME_STEP = fl (1 / 60)"

text \<open>
  The engine the constructor leaves behind, from the level that \<open>generate\<close> returned:
  the player of \<open>4. Initialize State\<close>, no key down, both clocks at 0.
\<close>

definition initialPlayer :: PlayerState where
  "initialPlayer = \<lparr>pos = V3 0 150 0, vel = V3 0 0 0, grounded = False, coyoteTime = 0\<rparr>"

definition constructed :: "BlockData list \<times> BlockMap \<times> real \<Rightarrow> GameEngine" where
  "constructed levelData =
     \<lparr>player = initialPlayer,
      input = \<lparr>keyW = False, keyA = False, keyS = False, keyD = False, keySpace = False\<rparr>,
      blocksData = fst levelData,
      blockMap = fst (snd levelData),
      winHeight = snd (snd levelData),
      lastTime = 0,
      accumulator = 0,
      statusLog = [],
      scoreLog = [],
      timeouts = [],
      renders = 0\<rparr>"

definition resetInputs :: "GameEngine \<Rightarrow> GameEngine" where
  "resetInputs eng =
     eng\<lparr>input := \<lparr>keyW = False, keyA = False, keyS = False, keyD = False, keySpace = False\<rparr>\<rparr>"

definition onStatusUpdate :: "string \<Rightarrow> GameEngine \<Rightarrow> GameEngine" where
  "onStatusUpdate msg eng = eng\<lparr>statusLog := statusLog eng @ [msg]\<rparr>"

definition onScoreUpdate :: "int \<Rightarrow> GameEngine \<Rightarrow> GameEngine" where
  "onScoreUpdate n eng = eng\<lparr>scoreLog := scoreLog eng @ [n]\<rparr>"

definition resetPlayer :: "GameEngine \<Rightarrow> GameEngine" where
  "resetPlayer eng =
    (let e1 = eng\<lparr>player := (player eng)\<lparr>pos := V3 0 150 0\<rparr>\<rparr>;
         e2 = e1\<lparr>player := (player e1)\<lparr>vel := V3 0 0 0\<rparr>\<rparr>;
         e3 = resetInputs e2;
         e4 = onStatusUpdate ''RESPAWNED!'' e3
     in e4\<lparr>timeouts := timeouts e4 @ [(1000, '''')]\<rparr>)"

text \<open>
  The resolver is handed \<open>this.player\<close> and \<open>this.resetPlayer\<close>: the callback sees the
  player as the resolver left it and the engine around it.
\<close>

definition resetCallback :: "PlayerState \<times> GameEngine \<Rightarrow> PlayerState \<times> GameEngine" where
  "resetCallback w =
     (let eng' = resetPlayer ((snd w)\<lparr>player := fst w\<rparr>) in (player eng', eng'))"

definition resolveOnce :: "GameEngine \<Rightarrow> GameEngine" where
  "resolveOnce eng =
     (case resolveCollisions (player eng) (blocksData eng) (blockMap eng) resetCallback eng of
        (player', eng') \<Rightarrow> eng'\<lparr>player := player'\<rparr>)"

definition inputForceOf :: "vec3 \<Rightarrow> InputState \<Rightarrow> vec3" where
  "inputForceOf camDir inp =
    (let force = V3 0 0 0;
         dz = (0::real);
         dx = (0::real);
         dz = (if keyW inp then dz - 1 else dz);
         dz = (if keyS inp then dz + 1 else dz);
         dx = (if keyA inp then dx - 1 else dx);
         dx = (if keyD inp then dx + 1 else dx)
     in if dx \<noteq> 0 \<or> dz \<noteq> 0
        then (let camDir1 = normalize (camDir\<lparr>yc := 0\<rparr>);
                  camRight = V3 (- zc camDir1) 0 (xc camDir1);
                  targetDir = normalize (add3 (multiplyScalar camDir1 (- dz))
                                              (multiplyScalar camRight dx))
              in add3 force (multiplyScalar targetDir moveSpeed))
        else force)"

text \<open>
  \<open>fixedUpdate\<close>, in the steps its comments name: the physics (the integrator once, the
  resolver four times), the jump, the fall check, and the game logic (victory message and
  score).
\<close>

definition physicsStep :: "vec3 \<Rightarrow> GameEngine \<Rightarrow> GameEngine" where
  "physicsStep camDir eng =
    (let force = inputForceOf camDir (input eng);
         e1 = eng\<lparr>player := applyPhysics (player eng) force\<rparr>
     in resolveOnce (resolveOnce (resolveOnce (resolveOnce e1))))"

definition jumpStep :: "GameEngine \<Rightarrow> GameEngine" where
  "jumpStep eng =
    (if keySpace (input eng) \<and> (grounded (player eng) \<or> coyoteTime (player eng) > 0)
     then eng\<lparr>player := (player eng)\<lparr>vel := (vel (player eng))\<lparr>yc := jumpForce\<rparr>,
                                        grounded := False, coyoteTime := 0\<rparr>,
              input := (input eng)\<lparr>keySpace := False\<rparr>\<rparr>
     else eng)"

definition fallCheck :: "GameEngine \<Rightarrow> GameEngine" where
  "fallCheck eng = (if yc (pos (player eng)) < - 300 then resetPlayer eng else eng)"

definition gameLogic :: "GameEngine \<Rightarrow> GameEngine" where
  "gameLogic eng =
    (let e1 = (if yc (pos (player eng)) > winHeight eng
               then onStatusUpdate ''VICTORY REACHED!'' eng else eng);
         relativeY = yc (pos (player e1)) - blockSize;
         heightInMeters = max 0 \<lfloor>relativeY / blockSize\<rfloor>
     in onScoreUpdate heightInMeters e1)"

definition fixedUpdate :: "vec3 \<Rightarrow> GameEngine \<Rightarrow> GameEngine" where
  "fixedUpdate camDir eng = gameLogic (fallCheck (jumpStep (physicsStep camDir eng)))"

text \<open>
  The loop \<open>while (this.accumulator >= this.TIME_STEP)\<close> of \<open>animate\<close>, in double
  arithmetic.  The second argument counts the calls of \<open>fixedUpdate\<close>; it is not a
  variable of the program.  The subtraction is rounded, so the loop need not end from every
  accumulator (a large one is not changed by it): \<open>None\<close> is the loop that runs forever.
\<close>

partial_function (option) consume :: "vec3 \<Rightarrow> GameEngine \<Rightarrow> nat \<Rightarrow> (GameEngine \<times> nat) option" where
  "consume camDir eng n =
     (if accumulator eng \<ge> TIME_STEP
      then consume camDir ((fixedUpdate camDir eng)\<lparr>accumulator :=
                              fl (accumulator (fixedUpdate camDir eng) - TIME_STEP)\<rparr>) (Suc n)
      else Some (eng, n))"

text \<open>
  \<open>animate(time)\<close>, with the number of fixed updates it ran.  \<open>renderUpdate\<close> moves the
  camera and the meshes only; of the two rendering calls the model keeps the count.
\<close>

definition animate :: "real \<Rightarrow> vec3 \<Rightarrow> GameEngine \<Rightarrow> (GameEngine \<times> nat) option" where
  "animate time camDir eng =
    (let seconds = fl (time / 1000)
     in if lastTime eng = 0
        then Some (eng\<lparr>lastTime := seconds, renders := renders eng + 1\<rparr>, 0)
        else (let deltaTime = min (fl (seconds - lastTime eng)) (fl 0.1);
                  e1 = eng\<lparr>lastTime := seconds\<rparr>;
                  e2 = e1\<lparr>accumulator := fl (accumulator e1 + deltaTime)\<rparr>
              in case consume camDir e2 0 of
                   None \<Rightarrow> None
                 | Some r \<Rightarrow> Some ((fst r)\<lparr>renders := renders (fst r) + 1\<rparr>, snd r)))"


section \<open>The level generator\<close>

text \<open>
  \<open>generate\<close> builds the two locals \<open>blocksData\<close> and \<open>blockMap\<close> through the closure
  \<open>addBlock\<close>.  \<open>Math.random()\<close> is the ambient generator of the platform: the model
  reads it as the sequence \<open>rnd\<close> of the values it returns from now on, together with
  the number of values already drawn.  \<open>Math.round\<close> is \<^const>\<open>round\<close> (both are
  \<open>\<lfloor>v + 1/2\<rfloor>\<close>); \<open>Math.cos\<close> and \<open>Math.sin\<close> are the real functions.
\<close>

record LevelData =
  blocksL :: "BlockData list"
  blockMapL :: BlockMap

definition addBlock :: "int \<Rightarrow> int \<Rightarrow> int \<Rightarrow> BlockType \<Rightarrow> LevelData \<Rightarrow> LevelData" where
  "addBlock x y z t lv =
    (let px = real_of_int x * blockSize;
         py = real_of_int y * blockSize;
         pz = real_of_int z * blockSize;
         half = blockSize / 2;
         block = \<lparr>minB = V3 (px - half) (py - half) (pz - half),
                  maxB = V3 (px + half) (py + half) (pz + half),
                  center = V3 px py pz,
                  gx = x, gy = y, gz = z,
                  typeB = t,
                  idB = length (blocksL lv)\<rparr>
     in \<lparr>blocksL = blocksL lv @ [block], blockMapL = mapSet (blockMapL lv) (x, y, z) block\<rparr>)"

definition basePlatform :: "LevelData \<Rightarrow> LevelData" where
  "basePlatform lv =
     fold (\<lambda>x. fold (\<lambda>z. addBlock x 0 z Standard) [-2..2]) [-2..2] lv"

definition towerHeight :: nat where
  "towerHeight = 100"

definition spiralCell :: "nat \<Rightarrow> int \<times> int" where
  "spiralCell i =
    (let angle = real i * 0.35;
         r = 4 + sin (real i * 0.1) * 1.5;
         bx = round (cos angle * r);
         bz = round (sin angle * r)
     in (bx, bz))"

text \<open>
  The body of the spiral loop, on the level built so far, \<open>currentY\<close> and the number of
  values drawn from the random source.
\<close>

definition spiralStep ::
  "(nat \<Rightarrow> real) \<Rightarrow> nat \<Rightarrow> LevelData \<times> int \<times> nat \<Rightarrow> LevelData \<times> int \<times> nat" where
  "spiralStep rnd i st =
    (let lv = fst st; currentY = fst (snd st); drawn = snd (snd st);
         bx = fst (spiralCell i);
         bz = snd (spiralCell i);
         lv1 = addBlock bx currentY bz Standard lv;
         side = (if i mod 6 = 0
                 then (let nx = bx + (if rnd drawn > 0.5 then 1 else - 1)
                       in (if \<not> mapHas (blockMapL lv1) (nx, currentY, bz)
                           then addBlock nx currentY bz Standard lv1 else lv1, Suc drawn))
                 else (lv1, drawn));
         lv2 = fst side; drawn' = snd side
     in if i > 10 \<and> i mod 8 = 0
        then (addBlock bx (currentY + 1) bz Spike lv2, currentY, drawn')
        else (lv2, if i mod 2 = 0 then currentY + 1 else currentY, drawn'))"

text \<open>
  \<open>generate()\<close>: the result \<open>{blocksData, blockMap, winHeight}\<close>, and the number of
  values drawn from the random source when it returns.
\<close>

definition generate :: "(nat \<Rightarrow> real) \<Rightarrow> nat \<Rightarrow> (BlockData list \<times> BlockMap \<times> real) \<times> nat" where
  "generate rnd drawn =
    (let lv0 = \<lparr>blocksL = [], blockMapL = []\<rparr>;
         lv1 = basePlatform lv0;
         st = fold (spiralStep rnd) [0..<towerHeight] (lv1, 1, drawn);
         lv2 = fst st; currentY = fst (snd st);
         topY = currentY + 1;
         lv3 = addBlock 0 topY 0 Standard lv2;
         lv4 = addBlock 0 (topY + 1) 0 Spike lv3;
         winHeight = real_of_int topY * blockSize
     in ((blocksL lv4, blockMapL lv4, winHeight), snd (snd st)))"


section \<open>Notions used in the statements\<close>

text \<open>The unit roundoff of the doubles and half their smallest spacing.\<close>

definition epsR :: real where "epsR = 1 / 2 ^ 53"

definition etaR :: real where "etaR = 1 / 2 ^ 1075"

text \<open>
  The player before the clamp of the horizontal speed; and a call of the integrator none
  of whose six sums leaves the range of the doubles.
\<close>

abbreviation beforeClamp :: "PlayerState \<Rightarrow> vec3 \<Rightarrow> PlayerState" where
  "beforeClamp p f \<equiv> applyGravity (applyFriction (addInputForce p f))"

definition finiteStep :: "PlayerState \<Rightarrow> vec3 \<Rightarrow> bool" where
  "finiteStep p f =
     (\<not> overflow (xc (vel p) + xc f) \<and> \<not> overflow (yc (vel p) + yc f) \<and>
      \<not> overflow (zc (vel p) + zc f) \<and>
      \<not> overflow (xc (pos p) + xc (vel (applyPhysics p f))) \<and>
      \<not> overflow (yc (pos p) + yc (vel (applyPhysics p f))) \<and>
      \<not> overflow (zc (pos p) + zc (vel (applyPhysics p f))))"


definition insideBox :: "vec3 \<Rightarrow> vec3 \<times> vec3 \<Rightarrow> bool" where
  "insideBox p box =
     (xc (fst box) \<le> xc p \<and> xc p \<le> xc (snd box) \<and>
      yc (fst box) \<le> yc p \<and> yc p \<le> yc (snd box) \<and>
      zc (fst box) \<le> zc p \<and> zc p \<le> zc (snd box))"

definition countReset :: "PlayerState \<times> nat \<Rightarrow> PlayerState \<times> nat" where
  "countReset w = (fst w, Suc (snd w))"

definition blockAt :: "int \<Rightarrow> int \<Rightarrow> int \<Rightarrow> BlockType \<Rightarrow> nat \<Rightarrow> BlockData" where
  "blockAt x y z t n =
     \<lparr>minB = V3 (real_of_int x * blockSize - blockSize / 2) (real_of_int y * blockSize - blockSize / 2)
               (real_of_int z * blockSize - blockSize / 2),
      maxB = V3 (real_of_int x * blockSize + blockSize / 2) (real_of_int y * blockSize + blockSize / 2)
               (real_of_int z * blockSize + blockSize / 2),
      center = V3 (real_of_int x * blockSize) (real_of_int y * blockSize) (real_of_int z * blockSize),
      gx = x, gy = y, gz = z, typeB = t, idB = n\<rparr>"

definition playerAt :: "real \<Rightarrow> real \<Rightarrow> real \<Rightarrow> real \<Rightarrow> bool \<Rightarrow> int \<Rightarrow> PlayerState" where
  "playerAt px py pz vy g c = \<lparr>pos = V3 px py pz, vel = V3 0 vy 0, grounded = g, coyoteTime = c\<rparr>"


definition distanceTo :: "vec3 \<Rightarrow> vec3 \<times> vec3 \<Rightarrow> real" where
  "distanceTo p box = sqrt (distSqOf p box)"


text \<open>Scenes: a single Standard block at the origin of the grid, and an L of three.\<close>

definition oneBlockMap :: BlockMap where
  "oneBlockMap = [((0, 0, 0), blockAt 0 0 0 Standard 0)]"



text \<open>A scene with a Spike block between two Standard blocks.\<close>

definition hazardBlocks :: "BlockData list" where
  "hazardBlocks = [blockAt 3 1 0 Standard 0, blockAt 0 1 0 Spike (Suc 0), blockAt 1 2 0 Standard 2]"

definition hazardMap :: BlockMap where
  "hazardMap = [((3, 1, 0), blockAt 3 1 0 Standard 0), ((0, 1, 0), blockAt 0 1 0 Spike (Suc 0)),
                ((1, 2, 0), blockAt 1 2 0 Standard 2)]"


text \<open>The player overlaps a hazard: the block is a Spike and passes the broad phase and the collision test.\<close>

definition overlapsHazard :: "PlayerState \<Rightarrow> BlockData \<Rightarrow> bool" where
  "overlapsHazard pl b = (typeB b = Spike \<and> inRange (pos pl) b \<and> collides (pos pl) (ownBox b))"


text \<open>
  The condition of the jump in \<open>fixedUpdate\<close>; a resolver call that ends without hazard
  and without ground contact; and \<open>quietCalls k pl q\<close>: the player \<open>q\<close> comes from
  \<open>pl\<close> by \<open>k\<close> such calls of either resolver, one after the other, position and
  velocity moving freely between two calls (the integrator runs there).
\<close>

definition jumpValid :: "PlayerState \<Rightarrow> bool" where
  "jumpValid pl = (grounded pl \<or> coyoteTime pl > 0)"

definition noGroundContact :: "BlockMap \<Rightarrow> BlockData list \<Rightarrow> PlayerState \<Rightarrow> bool" where
  "noGroundContact bm bs pl =
     (case resolveLoop bm bs pl False of Finished q g \<Rightarrow> \<not> g | HazardHit q \<Rightarrow> False)"

definition noGroundContact_p0 :: "BlockMap \<Rightarrow> BlockData list \<Rightarrow> PlayerState \<Rightarrow> bool" where
  "noGroundContact_p0 bm bs pl =
     (case resolveLoop_p0 bm bs pl False of Finished q g \<Rightarrow> \<not> g | HazardHit q \<Rightarrow> False)"

inductive quietCalls :: "nat \<Rightarrow> PlayerState \<Rightarrow> PlayerState \<Rightarrow> bool" where
  start: "quietCalls 0 pl pl"
| call: "quietCalls k pl q \<Longrightarrow> grounded q1 = grounded q \<Longrightarrow> coyoteTime q1 = coyoteTime q \<Longrightarrow>
         noGroundContact bm bs q1 \<Longrightarrow>
         quietCalls (Suc k) pl (fst (resolveCollisions q1 bs bm countReset 0))"
| call_p0: "quietCalls k pl q \<Longrightarrow> grounded q1 = grounded q \<Longrightarrow> coyoteTime q1 = coyoteTime q \<Longrightarrow>
         noGroundContact_p0 bm bs q1 \<Longrightarrow>
         quietCalls (Suc k) pl (fst (resolveCollisions_p0 q1 bs bm countReset 0))"


text \<open>An engine as constructed around a given level, with the player replaced.\<close>

definition sceneEngine :: "PlayerState \<Rightarrow> BlockData list \<Rightarrow> BlockMap \<Rightarrow> GameEngine" where
  "sceneEngine pl bs bm = (constructed (bs, bm, 4000))\<lparr>player := pl\<rparr>"


text \<open>
  The numbers of fixed updates that successive calls of \<open>animate\<close> run, one call for
  each (time, camera direction) of the list; and an engine whose last frame was at 1 s.
  \<open>rounds a k b\<close>: the loop of \<open>animate\<close> entered with the accumulator \<open>a\<close> runs
  \<open>k\<close> times and leaves the accumulator \<open>b\<close>.
\<close>

fun frames :: "(real \<times> vec3) list \<Rightarrow> GameEngine \<Rightarrow> nat list option" where
  "frames [] eng = Some []"
| "frames (f # fs) eng =
     (case animate (fst f) (snd f) eng of
        None \<Rightarrow> None
      | Some r \<Rightarrow> map_option ((#) (snd r)) (frames fs (fst r)))"

definition stalledEngine :: GameEngine where
  "stalledEngine = (constructed ([], [], 4000))\<lparr>lastTime := 1\<rparr>"

inductive rounds :: "real \<Rightarrow> nat \<Rightarrow> real \<Rightarrow> bool" where
  stop: "a < TIME_STEP \<Longrightarrow> rounds a 0 a"
| step: "TIME_STEP \<le> a \<Longrightarrow> rounds (fl (a - TIME_STEP)) k b \<Longrightarrow> rounds a (Suc k) b"


text \<open>The two adjoining Standard blocks at the grid cells (0,0,0) and (1,0,0).\<close>

definition twoBlocks :: "BlockData list" where
  "twoBlocks = [blockAt 0 0 0 Standard 0, blockAt 1 0 0 Standard (Suc 0)]"

definition twoBlockMap :: BlockMap where
  "twoBlockMap = [((0, 0, 0), blockAt 0 0 0 Standard 0), ((1, 0, 0), blockAt 1 0 0 Standard (Suc 0))]"

text \<open>
  The fixed update of the engine with the second resolver in the place of the first (the
  engine itself imports the first).
\<close>

definition resolveOnce_p0 :: "GameEngine \<Rightarrow> GameEngine" where
  "resolveOnce_p0 eng =
     (case resolveCollisions_p0 (player eng) (blocksData eng) (blockMap eng) resetCallback eng of
        (player', eng') \<Rightarrow> eng'\<lparr>player := player'\<rparr>)"

definition physicsStep_p0 :: "vec3 \<Rightarrow> GameEngine \<Rightarrow> GameEngine" where
  "physicsStep_p0 camDir eng =
    (let force = inputForceOf camDir (input eng);
         e1 = eng\<lparr>player := applyPhysics (player eng) force\<rparr>
     in resolveOnce_p0 (resolveOnce_p0 (resolveOnce_p0 (resolveOnce_p0 e1))))"

definition fixedUpdate_p0 :: "vec3 \<Rightarrow> GameEngine \<Rightarrow> GameEngine" where
  "fixedUpdate_p0 camDir eng = gameLogic (fallCheck (jumpStep (physicsStep_p0 camDir eng)))"

text \<open>
  A player above the seam, at \<open>(20, h, z)\<close> and falling with speed \<open>v\<close>, that the
  integrator brings into contact with the top face of the blocks: after the integration
  the centre is above the face at \<open>y = 20\<close> and the collision test of the resolver holds
  for the block at the origin.  \<open>cameTo q v\<close> is what the specification asks of the player
  \<open>q\<close> after the landing: grounded, no horizontal velocity, and a vertical velocity
  cancelled up to the fraction \<open>2 powr (- 45)\<close> of the speed of the fall.
\<close>

definition landsOnSeam :: "real \<Rightarrow> real \<Rightarrow> real \<Rightarrow> bool" where
  "landsOnSeam h z v =
     (0 \<le> v \<and> - 20 \<le> z \<and> z \<le> 20 \<and>
      20 < yc (pos (applyPhysics (playerAt 20 h z (- v) False 0) (V3 0 0 0))) \<and>
      collides (pos (applyPhysics (playerAt 20 h z (- v) False 0) (V3 0 0 0)))
        (ownBox (blockAt 0 0 0 Standard 0)))"

definition cameTo :: "PlayerState \<Rightarrow> real \<Rightarrow> bool" where
  "cameTo q v =
     (grounded q \<and> xc (vel q) = 0 \<and> zc (vel q) = 0 \<and> \<bar>yc (vel q)\<bar> \<le> (v + 1) / 2 ^ 45)"

text \<open>
  A player on the vertical plane through the seam, falling, not grounded, and not in
  contact with the top face from above.
\<close>

definition offSeam :: "PlayerState \<Rightarrow> bool" where
  "offSeam q =
     (xc (pos q) = 20 \<and> - 20 \<le> zc (pos q) \<and> zc (pos q) \<le> 20 \<and>
      xc (vel q) = 0 \<and> yc (vel q) < 0 \<and> zc (vel q) = 0 \<and> \<not> grounded q \<and>
      \<not> (20 < yc (pos q) \<and> collides (pos q) (ownBox (blockAt 0 0 0 Standard 0))))"


text \<open>
  The generator seen through the calls of \<open>addBlock\<close>.  A cell is the grid key and the
  type of one call; \<open>levelOf\<close> is the level that a list of calls builds from the empty
  one.  The loops of \<open>generate\<close> issue two kinds of instructions: \<open>Put\<close>, an
  unconditional \<open>addBlock\<close>, and \<open>PutIfFree\<close>, the side platform, which draws one
  random number, takes the first key when it exceeds 0.5 and the second otherwise, and
  adds a Standard block there unless the index has the key.  \<open>interp\<close> runs a list of
  instructions on the cells placed so far; \<open>draws\<close> counts the random numbers it reads.
  \<open>stepProg cell i cy\<close> and \<open>nextY i cy\<close> are the instructions and the new
  \<open>currentY\<close> of step \<open>i\<close> of the spiral loop when \<open>cell\<close> is its spiral cell;
  \<open>progOf f\<close> and \<open>lastY\<close> those of a list of steps whose cells are given by \<open>f\<close>.
  \<open>safe poss p\<close> checks that no \<open>Put\<close> of \<open>p\<close> targets a key of \<open>poss\<close>, a key
  put earlier, or a candidate of an earlier \<open>PutIfFree\<close>.
\<close>

type_synonym cell = "key \<times> BlockType"

definition gridKey :: "BlockData \<Rightarrow> key" where
  "gridKey b = (gx b, gy b, gz b)"

definition putCell :: "cell \<Rightarrow> LevelData \<Rightarrow> LevelData" where
  "putCell c lv = addBlock (fst (fst c)) (fst (snd (fst c))) (snd (snd (fst c))) (snd c) lv"

definition levelOf :: "cell list \<Rightarrow> LevelData" where
  "levelOf cs = fold putCell cs \<lparr>blocksL = [], blockMapL = []\<rparr>"

datatype instr = Put key BlockType | PutIfFree key key

fun interp :: "(nat \<Rightarrow> real) \<Rightarrow> nat \<Rightarrow> instr list \<Rightarrow> cell list \<Rightarrow> cell list" where
  "interp rnd d [] cs = cs"
| "interp rnd d (Put k t # p) cs = interp rnd d p (cs @ [(k, t)])"
| "interp rnd d (PutIfFree k1 k2 # p) cs =
     (let k = (if rnd d > 0.5 then k1 else k2)
      in interp rnd (Suc d) p (if k \<in> fst ` set cs then cs else cs @ [(k, Standard)]))"

fun draws :: "instr list \<Rightarrow> nat" where
  "draws [] = 0"
| "draws (Put k t # p) = draws p"
| "draws (PutIfFree k1 k2 # p) = Suc (draws p)"

definition stepProg :: "int \<times> int \<Rightarrow> nat \<Rightarrow> int \<Rightarrow> instr list" where
  "stepProg cell i cy =
     [Put (fst cell, cy, snd cell) Standard] @
     (if i mod 6 = 0
      then [PutIfFree (fst cell + 1, cy, snd cell) (fst cell - 1, cy, snd cell)]
      else []) @
     (if i > 10 \<and> i mod 8 = 0 then [Put (fst cell, cy + 1, snd cell) Spike] else [])"

definition nextY :: "nat \<Rightarrow> int \<Rightarrow> int" where
  "nextY i cy = (if i > 10 \<and> i mod 8 = 0 then cy else if i mod 2 = 0 then cy + 1 else cy)"

fun progOf :: "(nat \<Rightarrow> int \<times> int) \<Rightarrow> nat list \<Rightarrow> int \<Rightarrow> instr list" where
  "progOf f [] cy = []"
| "progOf f (i # is) cy = stepProg (f i) i cy @ progOf f is (nextY i cy)"

fun lastY :: "nat list \<Rightarrow> int \<Rightarrow> int" where
  "lastY [] cy = cy"
| "lastY (i # is) cy = lastY is (nextY i cy)"

definition baseCells :: "cell list" where
  "baseCells = concat (map (\<lambda>x. map (\<lambda>z. ((x, 0, z), Standard)) [-2..2]) [-2..2])"

definition capProg :: "int \<Rightarrow> instr list" where
  "capProg topY = [Put (0, topY, 0) Standard, Put (0, topY + 1, 0) Spike]"

fun safe :: "key list \<Rightarrow> instr list \<Rightarrow> bool" where
  "safe poss [] = True"
| "safe poss (Put k t # p) = (k \<notin> set poss \<and> safe (k # poss) p)"
| "safe poss (PutIfFree k1 k2 # p) = safe (k1 # k2 # poss) p"

definition towerProg :: "instr list" where
  "towerProg = progOf spiralCell [0..<towerHeight] 1"

definition topY :: int where
  "topY = lastY [0..<towerHeight] 1 + 1"

definition genCells :: "(nat \<Rightarrow> real) \<Rightarrow> nat \<Rightarrow> cell list" where
  "genCells rnd d = interp rnd d (towerProg @ capProg topY) baseCells"

text \<open>
  All keys of the instructions lie on layer \<open>m\<close> or above; a random source that
  returns 0.9 seventeen times and 0.1 from then on; a block that is the cube of its cell.
\<close>

fun layersFrom :: "int \<Rightarrow> instr list \<Rightarrow> bool" where
  "layersFrom m [] = True"
| "layersFrom m (Put k t # p) = (m \<le> fst (snd k) \<and> layersFrom m p)"
| "layersFrom m (PutIfFree k1 k2 # p) = (m \<le> fst (snd k1) \<and> m \<le> fst (snd k2) \<and> layersFrom m p)"

definition rndHiLo :: "nat \<Rightarrow> real" where
  "rndHiLo k = (if k < 17 then 0.9 else 0.1)"

definition wellFormed :: "BlockData \<Rightarrow> bool" where
  "wellFormed b = (b = blockAt (gx b) (gy b) (gz b) (typeB b) (idB b))"


text \<open>
  Fixed-point approximations of the cosine and the sine, for the table of the spiral's
  cells.  An approximation is a triple of integers in units of \<open>1 / SC\<close>: cosine, sine
  and a bound of the error of both.  \<open>rotate b p\<close> advances \<open>p\<close> by the angle of
  \<open>b\<close> with the addition formulas, rounding down and adding the error made;
  \<open>iter b n p\<close> lists \<open>p\<close> and its \<open>n - 1\<close> successors.  \<open>baseA\<close> and \<open>baseB\<close>
  approximate the angles 0.35 and 0.1, \<open>chainA\<close> and \<open>chainB\<close> their first hundred
  multiples.  \<open>marginOK (pA, pB) (n, m)\<close> says that the products of the cosine and the
  sine of \<open>pA\<close> with the radius \<open>4 + 1.5 sin\<close> of \<open>pB\<close> stay, errors included, within
  less than 1/2 of \<open>n\<close> and of \<open>m\<close>.  \<open>spiralTable\<close> lists the hundred cells.
\<close>

definition SC :: int where
  "SC = 100000000000000000000"

definition SC2 :: int where
  "SC2 = 10000000000000000000000000000000000000000"

type_synonym approx = "int \<times> int \<times> int"

definition approximates :: "approx \<Rightarrow> real \<Rightarrow> bool" where
  "approximates p a =
     (\<bar>cos a - of_int (fst p) / of_int SC\<bar> \<le> of_int (snd (snd p)) / of_int SC \<and>
      \<bar>sin a - of_int (fst (snd p)) / of_int SC\<bar> \<le> of_int (snd (snd p)) / of_int SC)"

definition rotate :: "approx \<Rightarrow> approx \<Rightarrow> approx" where
  "rotate b p =
     ((fst p * fst b - fst (snd p) * fst (snd b)) div SC,
      (fst (snd p) * fst b + fst p * fst (snd b)) div SC,
      2 * snd (snd b) + ((\<bar>fst b\<bar> + \<bar>fst (snd b)\<bar>) * snd (snd p)) div SC + 2)"

fun iter :: "approx \<Rightarrow> nat \<Rightarrow> approx \<Rightarrow> approx list" where
  "iter b 0 p = []"
| "iter b (Suc n) p = p # iter b n (rotate b p)"

definition baseA :: approx where
  "baseA = (93937271284737892003, 34289780745545134918, 2)"

definition baseB :: approx where
  "baseB = (99500416527802576609, 9983341664682815230, 2)"

definition marginOK :: "approx \<times> approx \<Rightarrow> int \<times> int \<Rightarrow> bool" where
  "marginOK q t =
     (let w = 8 * SC + 3 * fst (snd (snd q));
          err = 3 * snd (snd (snd q)) * SC + snd (snd (fst q)) * \<bar>w\<bar>
      in \<bar>fst (fst q) * w - 2 * fst t * SC2\<bar> + err < SC2 \<and>
         \<bar>fst (snd (fst q)) * w - 2 * snd t * SC2\<bar> + err < SC2)"

definition chainA :: "approx list" where
  "chainA = [
     (100000000000000000000, 0, 0),
     (93937271284737892003, 34289780745545134918, 6),
     (76484218728448842625, 64421768723769105365, 13),
     (49757104789172699029, 86742322559401689434, 22),
     (16996714290024093863, 98544972998846018061, 34),
     (- 17824605564949209035, 98398594687393689868, 49),
     (- 50484610459985745157, 86320936664887377064, 68),
     (- 77023125404730734163, 63776470213450375441, 93),
     (- 94222234066865815250, 33498815015590491954, 125),
     (- 99996465847134196154, - 840724736714870643, 166),
     (- 93645668729079633763, - 35078322768961984806, 218),
     (- 75939905913750792777, - 65062513706516730070, 285),
     (- 49026082134069957765, - 87157577241358805992, 371),
     (- 16167621635368631935, - 98684385850323657581, 481),
     (18651236942257540441, - 98245261262433251220, 622),
     (51208547724184068303, - 85893449342659203029, 803),
     (77556587851024979751, - 63126663787232131147, 1035),
     (94500536933422741424, - 32705481486974081361, 1333),
     (99985863638341514216, 1681390048434989019, 1715),
     (93347447011251195656, 35864385349280004308, 2205),
     (75390225434330463811, 65698659871878909019, 2833),
     (48291594165593751353, 87566671359288241193, 3638),
     (15337386203786452609, 98816823387700036834, 4670),
     (- 19476549993116066525, 98084983562039967061, 5994),
     (- 51928865411668529891, 85459890808828066272, 7691),
     (- 78084568360574911995, 62472395375419241211, 9867),
     (- 94772160213111202446, 31909836234935177086, 12658),
     (- 99968194123018485945, - 2521936514365943190, 16236),
     (- 93042627210475351839, - 36647912925192774795, 20824),
     (- 74835216143284688113, - 66330162255099774526, 26708),
     (- 47553692799599253555, - 87969575997167009774, 34252),
     (- 14506066678856152235, - 98942276249885110660, 43926),
     (20300486381875109757, - 97917772915131720794, 56331),
     (52645512608182739683, - 85020291708636663469, 72237),
     (78607029614103912615, - 61813711223703357916, 92633),
     (95037084706767351726, - 31111935498112732271, 118786),
     (99943458550100475678, 3362304722113704920, 152321),
     (92731230872347551636, 37428850114575739285, 195322),
     (74274917270366995637, 66956976219660178139, 250461),
     (46812430193211010583, 88366262676463499624, 321164),
     (13673721820783359446, 99060735569487030751, 411825),
     (- 21122987870191678669, 97743641140668251677, 528077),
     (- 53358438658911831047, 84574683114293389530, 677143),
     (- 79123934682453252981, 61150657889894130176, 868286),
     (- 95295291688718019725, 30311835674570260267, 1113383),
     (- 99911658667973401715, - 4202435271884079376, 1427664),
     (- 92413280007313010943, - 38207141718400780377, 1830657),
     (- 73709368419214734950, - 67579057460432736329, 2347403),
     (- 46067858741136316033, - 88756703358150421517, 3010011),
     (- 12840410462247384135, - 99172192973438920075, 3859654),
     (21943996321145932033, - 97562600546815754677, 4949126),
     (54067593172062898185, - 84123096522776058970, 6346124),
     (79635247029192359994, - 60483282240628355254, 8137453),
     (95546762908104301819, - 29509593317809447120, 10434422),
     (99872796724350155095, 5042268780681264140, 13379757),
     (92088797089110946699, 38982732724637856273, 17156473),
     (73138609564549767094, 68196362006813452302, 21999245),
     (45320031071961792821, 89140870444686693236, 28208989),
     (12006191504242743844, 99276640583590706786, 36171561),
     (- 22763453703350474057, 97374663930076901592, 46381732),
     (- 54772926022426842077, 83665563853605603168, 59473933),
     (- 80140930513201322670, 59811631448057301546, 76261677),
     (- 95791480590171584778, 28705265132772777126, 97788106),
     (- 99826875466111724348, - 5881745886505220953, 125390811),
     (- 91757805053186064260, - 39755568312143419298, 160784946),
     (- 72562681049352930003, - 68808846225829692768, 206169802),
     (- 44569000044433443750, - 89518736781968118201, 264365465),
     (- 11171123911915861365, - 99374071017265976010, 338988048),
     (23581302095052190305, - 97179844574386345176, 434674386),
     (55474387354921373546, - 83202117446589901088, 557370157),
     (80640949391225457017, - 59135752986512436751, 714699327),
     (96029427437525920789, - 27898907971835454181, 916437883),
     (99773898139113037574, 6720807252547563312, 1175121287),
     (91420327295067410079, 40525593854535341878, 1506823390),
     (71981623582012473309, 69416466825224299796, 1932155218),
     (43814818743720433769, 89890275661246720519, 2477545682),
     (10335266710397227947, 99464477387783799937, 3176883796),
     (- 24397483688226334254, 96978156250171769975, 4073624444),
     (- 56171927588114922861, 82732790059537902739, 5223488541),
     (- 81135268320401748528, 58455694629149796935, 6697925375),
     (- 96260586631356660120, 27090578830786902033, 8588552261),
     (- 99713868487953535468, - 7559393571385663555, 11012847382),
     (- 91076387668714704149, - 41292754924054076297, 14121449548),
     (- 71395478233446664961, - 70019180856515619962, 18107518465),
     (- 43057540477662867877, - 90255460821018601004, 23218737129),
     (- 9498678980629326577, - 99547853304945509529, 29772702145),
     (25211940792662575258, - 96769613213380556444, 38176658276),
     (56865497417731206940, - 82257614865944207135, 48952803476),
     (81623852360756993821, - 57771504444573233851, 62770736789),
     (96484941832625256102, - 26280334844802127686, 80489065328),
     (99646790755712491607, 8397445569174682756, 103208755682),
     (90726010484832269237, 42056997295409775085, 132341544854),
     (70804286434200773197, 70616945718033234286, 169697661583),
     (42297218773003830050, 90614266448880180506, 217598308818),
     (8661419855190610374, 99624192875486373251, 279019896671),
     (- 26024615840042718956, 96554230204472126950, 357778988085),
     (- 57555047820134206306, 81776625452644258223, 458769449211),
     (- 82106666977677464736, 57083230793436779008, 588266540344),
     (- 96702477183220158297, 25468233284403232495, 754316842769),
     (- 99572669683649098610, - 9234904009837227355, 967238250456)]"

definition chainB :: "approx list" where
  "chainB = [
     (100000000000000000000, 0, 0),
     (99500416527802576609, 9983341664682815230, 6),
     (98006657784124163111, 19866933079506121544, 12),
     (95533648912560601962, 29552020666133957507, 19),
     (92106099400288508277, 38941834230865049162, 26),
     (87758256189037271609, 47942553860420300021, 34),
     (82533561490967829721, 56464247339503535712, 43),
     (76484218728448842623, 64421768723769105358, 53),
     (69670670934716542090, 71735609089952276152, 64),
     (62160996827066445647, 78332690962748338834, 76),
     (54030230586813971740, 84147098480789650652, 89),
     (45359612142557738778, 89120736006143533981, 103),
     (36235775447667357766, 93203908596722634952, 118),
     (26749882862458740703, 96355818541719296454, 135),
     (16996714290024093866, 98544972998846018049, 153),
     (7073720166770291015, 99749498660405443077, 173),
     (- 2919952230128872613, 99957360304150516417, 195),
     (- 12884449429552468399, 99166481045246861517, 219),
     (- 22720209469308705520, 97384763087819518636, 245),
     (- 32328956686350342214, 94630008768741448832, 274),
     (- 41614683654714238684, 90929742682568169523, 305),
     (- 50484610459985745144, 86320936664887377052, 339),
     (- 58850111725534570832, 80849640381959018416, 377),
     (- 66627602127982419310, 74570521217672017726, 418),
     (- 73739371554124549938, 67546318055115092646, 463),
     (- 80114361554693371459, 59847214410395649397, 512),
     (- 85688875336894723354, 51550137182146423520, 566),
     (- 90407214201706114772, 42737988023382993452, 625),
     (- 94222234066865815232, 33498815015590491953, 690),
     (- 97095816514959052151, 23924932921398232820, 761),
     (- 98999249660044545700, 14112000805986722214, 839),
     (- 99913515027327946422, 4158066243329057926, 924),
     (- 99829477579475308440, - 5837414342757990904, 1017),
     (- 98747976990886488369, - 15774569414324838189, 1119),
     (- 96679819257946101405, - 25554110202683131910, 1231),
     (- 93645668729079633748, - 35078322768961984795, 1353),
     (- 89675841633414700567, - 44252044329485238407, 1487),
     (- 84810003171040815866, - 52983614090849321299, 1634),
     (- 79096771191441669985, - 61185789094271907549, 1794),
     (- 72593230420014012926, - 68776615918397381783, 1970),
     (- 65364362086361191456, - 75680249530792825110, 2162),
     (- 57482394653326891149, - 81827711106441050398, 2373),
     (- 49026082134069957765, - 87157577241358805973, 2604),
     (- 40079917207997529694, - 91616593674945498374, 2856),
     (- 30733286997841968319, - 95160207388951595375, 3132),
     (- 21079579943077970609, - 97753011766509705511, 3435),
     (- 11215252693505451758, - 99369100363346445587, 3766),
     (- 1238866346289073734, - 99992325756410088393, 4129),
     (8749898343944656910, - 99616460883584067155, 4526),
     (18651236942257540424, - 98245261262433251207, 4961),
     (28366218546322626418, - 95892427466313846871, 5437),
     (37797774271298056300, - 92581468232773229679, 5958),
     (46851667130037695829, - 88345465572015326455, 6529),
     (55437433617916092907, - 83226744222390116348, 7154),
     (63469287594263436201, - 77276448755598736232, 7838),
     (70866977429125999962, - 70554032557039190624, 8587),
     (77556587851024979724, - 63126663787232131152, 9407),
     (83471278483915968233, - 55068554259763776133, 10305),
     (88551951694131900374, - 46460217941375721157, 11288),
     (92747843074403574049, - 37387666483023636002, 12364),
     (96017028665036602014, - 27941549819892587307, 13542),
     (98326843844258459619, - 18216250427209554033, 14832),
     (99654209702321747477, - 8308940281749657836, 16244),
     (99985863638341514194, 1681390048434988991, 17790),
     (99318491875819265828, 11654920485049328903, 19483),
     (97658762572802349961, 21511998808781552380, 21336),
     (95023259195852946599, 31154136351337817382, 23365),
     (91438314823531944095, 40484992061659816106, 25586),
     (86939749034982517230, 49411335113860832162, 28018),
     (81572510012535707257, 57843976438819986955, 30681),
     (75390225434330463811, 65698659871878908975, 33596),
     (68454666644280634065, 72896904012587615142, 36788),
     (60835131453225467109, 79366786384915305180, 40282),
     (52607751738110518906, 85043662062856451685, 44108),
     (43854732757439064934, 89870809581162675861, 48297),
     (34663531783502581124, 93799997677473885730, 52883),
     (25125984258225538039, 96791967203148642527, 57904),
     (15337386203786452637, 98816823387700036794, 63401),
     (5395542056264957349, 99854334537460496286, 69419),
     (- 4600212563953659398, 99894134183977203576, 76008),
     (- 14550003380861352530, 98935824662338177731, 83222),
     (- 24354415373579146385, 96988981084508624278, 91120),
     (- 33915486098383520674, 94073055667977290076, 99767),
     (- 43137684497062017301, 90217183375629363967, 109234),
     (- 51928865411668529841, 85459890808828066257, 119599),
     (- 60201190268482361459, 79848711262349028647, 130947),
     (- 67872004732001270009, 73439709787411314359, 143371),
     (- 74864664559739915653, 66296923008218279215, 156973),
     (- 81109301406165556210, 58491719289176225355, 171865),
     (- 86543520924111205885, 50102085645788498211, 188170),
     (- 91113026188467698759, 41211848524175656993, 206021),
     (- 94772160213111202396, 31909836234935177104, 225565),
     (- 97484362140416374121, 22288991410024695785, 246963),
     (- 99222532545260340706, 12445442350706240838, 270390),
     (- 99969304203520647152, 2477542545335812154, 296039),
     (- 99717215619637847228, - 7515112046180930676, 324120),
     (- 98468785579412690946, - 17432678122297998454, 354864),
     (- 96236487983131003357, - 27176062641094312370, 388524),
     (- 93042627210475351812, - 36647912925192774748, 425376),
     (- 88919115262536105428, - 45753589377532104368, 465723)]"

definition spiralTable :: "(int \<times> int) list" where
  "spiralTable = [
     (4, 0), (4, 1), (3, 3), (2, 4), (1, 5), (- 1, 5), (- 2, 4), (- 4, 3), (- 5, 2), (- 5, 0),
     (- 5, - 2), (- 4, - 3), (- 3, - 5), (- 1, - 5), (1, - 5), (3, - 5), (4, - 3), (5, - 2), (5, 0), (5, 2),
     (4, 4), (3, 5), (1, 5), (- 1, 5), (- 3, 4), (- 4, 3), (- 5, 2), (- 5, 0), (- 4, - 2), (- 3, - 3),
     (- 2, - 4), (- 1, - 4), (1, - 4), (2, - 3), (3, - 2), (3, - 1), (3, 0), (3, 1), (2, 2), (1, 3),
     (0, 3), (- 1, 3), (- 1, 2), (- 2, 2), (- 2, 1), (- 3, 0), (- 2, - 1), (- 2, - 2), (- 1, - 2), (0, - 3),
     (1, - 2), (1, - 2), (2, - 2), (3, - 1), (3, 0), (3, 1), (2, 2), (1, 3), (0, 3), (- 1, 3),
     (- 2, 3), (- 3, 2), (- 4, 1), (- 4, 0), (- 4, - 2), (- 3, - 3), (- 2, - 4), (- 1, - 5), (1, - 5), (3, - 4),
     (4, - 3), (5, - 1), (5, 0), (5, 2), (4, 4), (2, 5), (1, 5), (- 1, 5), (- 3, 5), (- 4, 3),
     (- 5, 1), (- 5, 0), (- 5, - 2), (- 4, - 4), (- 2, - 5), (0, - 5), (1, - 5), (3, - 4), (4, - 3), (5, - 1),
     (5, 0), (4, 2), (3, 3), (2, 4), (0, 4), (- 1, 4), (- 2, 3), (- 3, 2), (- 3, 1), (- 3, 0)]"

section \<open>Rounding to the nearest double\<close>

text \<open>
  The function \<open>fl\<close> is odd and monotone, moves a number by at most half the spacing
  of the doubles around it, and is evaluated at a given number by \<open>fl_eqI\<close>.
\<close>

lemma rne_close: "\<bar>of_int (rne y) - y\<bar> \<le> 1 / 2"
proof -
  define f where "f = \<lfloor>y\<rfloor>"
  have b: "of_int f \<le> y" "y < of_int f + 1" unfolding f_def by linarith+
  show ?thesis
    unfolding rne_def f_def [symmetric] using b by (simp split: if_splits)
qed

lemma rne_unique: "\<bar>y - of_int m\<bar> < 1 / 2 \<Longrightarrow> rne y = m"
proof -
  assume a: "\<bar>y - of_int m\<bar> < 1 / 2"
  have "\<bar>of_int (rne y) - y\<bar> \<le> 1 / 2" by (rule rne_close)
  with a have "\<bar>(of_int (rne y) :: real) - of_int m\<bar> < 1" by linarith
  then have "\<bar>of_int (rne y - m) :: real\<bar> < 1" by simp
  then have "\<bar>rne y - m\<bar> < 1" by linarith
  then show ?thesis by simp
qed

lemma rne_tie:
  assumes "\<bar>y - of_int m\<bar> = 1 / 2" "even m"
  shows "rne y = m"
proof (cases "y \<le> of_int m")
  case True
  with assms(1) have y: "y = of_int (m - 1) + 1 / 2" by simp
  then have f: "\<lfloor>y\<rfloor> = m - 1" by linarith
  have o: "odd (m - 1)" using assms(2) by simp
  show ?thesis unfolding rne_def f using o by (simp add: y)
next
  case False
  with assms(1) have y: "y = of_int m + 1 / 2" by simp
  then have f: "\<lfloor>y\<rfloor> = m" by linarith
  show ?thesis unfolding rne_def f using assms(2) by (simp add: y)
qed

lemma rne_nearest:
  "\<bar>y - of_int m\<bar> < 1 / 2 \<or> \<bar>y - of_int m\<bar> = 1 / 2 \<and> even m \<Longrightarrow> rne y = m"
  using rne_unique rne_tie by blast

lemma rne_of_int [simp]: "rne (of_int m) = m"
  by (rule rne_unique) simp

lemma rne_0 [simp]: "rne 0 = 0"
  using rne_of_int [of 0] by simp

lemma rne_numeral [simp]: "rne (numeral n) = numeral n"
  using rne_of_int [of "numeral n"] by simp

lemma rne_mono: "a \<le> b \<Longrightarrow> rne a \<le> rne b"
proof (rule ccontr)
  assume ab: "a \<le> b" and "\<not> rne a \<le> rne b"
  then have "rne b + 1 \<le> rne a" by simp
  then have l: "(of_int (rne b) :: real) + 1 \<le> of_int (rne a)" by linarith
  have ca: "\<bar>of_int (rne a) - a\<bar> \<le> 1 / 2" and cb: "\<bar>of_int (rne b) - b\<bar> \<le> 1 / 2"
    by (rule rne_close)+
  from l ca cb ab have "a = b" by linarith
  with \<open>\<not> rne a \<le> rne b\<close> show False by simp
qed

lemma rne_minus: "rne (- y) = - rne y"
proof (cases "y = of_int \<lfloor>y\<rfloor>")
  case True
  then have "rne y = \<lfloor>y\<rfloor>" by (metis rne_of_int)
  moreover from True have "- y = of_int (- \<lfloor>y\<rfloor>)" by simp
  then have "rne (- y) = - \<lfloor>y\<rfloor>" by (metis rne_of_int)
  ultimately show ?thesis by simp
next
  case False
  define f where "f = \<lfloor>y\<rfloor>"
  have "\<lfloor>- y\<rfloor> = - \<lceil>y\<rceil>" by (simp add: ceiling_def)
  also have "\<lceil>y\<rceil> = f + 1" using False by (simp add: ceiling_altdef f_def)
  finally have g: "\<lfloor>- y\<rfloor> = - f - 1" by simp
  have b: "of_int f \<le> y" "y < of_int f + 1" unfolding f_def by linarith+
  have e: "even (- f - 1) \<longleftrightarrow> odd f" by simp
  show ?thesis
    unfolding rne_def [of "- y"] rne_def [of y] g f_def [symmetric] using b
    by (simp add: e split: if_splits)
qed


lemma quantum_pos [simp]: "0 < quantum x"
  by (simp add: quantum_def)

lemma quantum_ge0 [simp]: "0 \<le> quantum x"
  using quantum_pos [of x] by linarith

lemma quantum_neq0 [simp]: "quantum x \<noteq> 0"
  using quantum_pos [of x] by linarith

lemma expo_minus [simp]: "expo (- x) = expo x"
  by (simp add: expo_def)

lemma quantum_minus [simp]: "quantum (- x) = quantum x"
  by (simp add: quantum_def)

lemma fl_0 [simp]: "fl 0 = 0"
  by (simp add: fl_def)

lemma fl_minus: "fl (- x) = - fl x"
  by (simp add: fl_def rne_minus)

lemma fl_error: "\<bar>fl x - x\<bar> \<le> quantum x / 2"
proof (cases "x = 0")
  case True
  then show ?thesis by (simp add: less_imp_le)
next
  case False
  have "\<bar>fl x - x\<bar> = \<bar>of_int (rne (x / quantum x)) - x / quantum x\<bar> * quantum x"
  proof -
    have "fl x - x = (of_int (rne (x / quantum x)) - x / quantum x) * quantum x"
      using False by (simp add: fl_def left_diff_distrib)
    then show ?thesis by (simp add: abs_mult less_imp_le)
  qed
  also have "\<dots> \<le> 1 / 2 * quantum x"
    by (intro mult_right_mono rne_close) simp
  finally show ?thesis by simp
qed

lemma expo_upper: "x \<noteq> 0 \<Longrightarrow> \<bar>x\<bar> < 2 powr (of_int (expo x) + 1)"
proof -
  assume "x \<noteq> 0"
  then have p: "0 < \<bar>x\<bar>" by simp
  have "log 2 \<bar>x\<bar> < of_int \<lfloor>log 2 \<bar>x\<bar>\<rfloor> + 1" by linarith
  also have "\<dots> \<le> of_int (expo x) + 1" by (simp add: expo_def)
  finally have "log 2 \<bar>x\<bar> < of_int (expo x) + 1" .
  then show ?thesis using p by (simp add: log_less_iff)
qed

lemma expo_normal: "2 powr (- 1022) \<le> \<bar>x\<bar> \<Longrightarrow> expo x = \<lfloor>log 2 \<bar>x\<bar>\<rfloor>"
proof -
  assume a: "2 powr (- 1022) \<le> \<bar>x\<bar>"
  have "0 < (2::real) powr (- 1022)" by simp
  with a have p: "0 < \<bar>x\<bar>" by linarith
  from a p have "- 1022 \<le> log 2 \<bar>x\<bar>" by (simp add: le_log_iff)
  then have "- 1022 \<le> \<lfloor>log 2 \<bar>x\<bar>\<rfloor>" by (simp add: le_floor_iff)
  then show ?thesis by (simp add: expo_def)
qed

lemma expo_lower: "2 powr (- 1022) \<le> \<bar>x\<bar> \<Longrightarrow> 2 powr (of_int (expo x)) \<le> \<bar>x\<bar>"
proof -
  assume a: "2 powr (- 1022) \<le> \<bar>x\<bar>"
  have "0 < (2::real) powr (- 1022)" by simp
  with a have p: "0 < \<bar>x\<bar>" by linarith
  have "of_int (expo x) \<le> log 2 \<bar>x\<bar>" unfolding expo_normal [OF a] by simp
  then show ?thesis using p by (simp add: le_log_iff)
qed

lemma expo_mono: "x \<noteq> 0 \<Longrightarrow> \<bar>x\<bar> \<le> \<bar>y\<bar> \<Longrightarrow> expo x \<le> expo y"
proof -
  assume "x \<noteq> 0" "\<bar>x\<bar> \<le> \<bar>y\<bar>"
  then have "log 2 \<bar>x\<bar> \<le> log 2 \<bar>y\<bar>" by simp
  then have "\<lfloor>log 2 \<bar>x\<bar>\<rfloor> \<le> \<lfloor>log 2 \<bar>y\<bar>\<rfloor>" by (rule floor_mono)
  then show ?thesis by (simp add: expo_def)
qed


lemma fl_rel:
  assumes "2 powr (- 1022) \<le> \<bar>x\<bar>"
  shows "\<bar>fl x - x\<bar> \<le> \<bar>x\<bar> / 2 ^ 53"
proof -
  have "quantum x = 2 powr (of_int (expo x)) * 2 powr (- 52)"
    by (simp add: quantum_def powr_add [symmetric])
  also have "\<dots> \<le> \<bar>x\<bar> * 2 powr (- 52)"
    by (intro mult_right_mono expo_lower [OF assms]) simp
  finally have "quantum x / 2 \<le> \<bar>x\<bar> * 2 powr (- 52) / 2" by simp
  also have "\<dots> = \<bar>x\<bar> / 2 ^ 53"
    by (simp add: powr_minus powr_numeral divide_simps)
  finally show ?thesis using fl_error [of x] by linarith
qed

lemma fl_sub:
  assumes "\<bar>x\<bar> < 2 powr (- 1022)"
  shows "\<bar>fl x - x\<bar> \<le> 1 / 2 ^ 1075"
proof (cases "x = 0")
  case True
  then show ?thesis by simp
next
  case False
  then have p: "0 < \<bar>x\<bar>" by simp
  from assms p have "log 2 \<bar>x\<bar> < - 1022" by (simp add: log_less_iff)
  then have "\<lfloor>log 2 \<bar>x\<bar>\<rfloor> < - 1022" by linarith
  then have "expo x = - 1022" by (simp add: expo_def)
  then have "quantum x = 2 powr (- 1074)" by (simp add: quantum_def)
  then have "quantum x / 2 = 1 / 2 ^ 1075"
    by (simp add: powr_minus powr_numeral divide_simps)
  then show ?thesis using fl_error [of x] by linarith
qed

lemma fl_abs: "\<bar>fl x - x\<bar> \<le> \<bar>x\<bar> / 2 ^ 53 + 1 / 2 ^ 1075"
proof (cases "2 powr (- 1022) \<le> \<bar>x\<bar>")
  case True
  have "(0::real) \<le> 1 / 2 ^ 1075" by simp
  with fl_rel [OF True] show ?thesis by linarith
next
  case False
  then have "\<bar>x\<bar> < 2 powr (- 1022)" by simp
  from fl_sub [OF this] have "\<bar>fl x - x\<bar> \<le> 1 / 2 ^ 1075" .
  moreover have "0 \<le> \<bar>x\<bar> / 2 ^ 53" by simp
  ultimately show ?thesis by linarith
qed


lemma fl_nonneg: "0 \<le> x \<Longrightarrow> 0 \<le> fl x"
proof -
  assume "0 \<le> x"
  then have "0 \<le> x / quantum x" by simp
  from rne_mono [OF this] have "0 \<le> rne (x / quantum x)" by simp
  then show ?thesis by (simp add: fl_def)
qed

lemma quantum_expo: "quantum x * 2 ^ 52 = 2 powr (of_int (expo x))"
proof -
  have "quantum x * 2 ^ 52 = 2 powr (of_int (expo x) - 52) * 2 powr 52"
    by (simp add: quantum_def powr_numeral)
  also have "\<dots> = 2 powr (of_int (expo x) - 52 + 52)"
    by (rule powr_add [symmetric])
  finally show ?thesis by simp
qed

lemma fl_le_binade:
  assumes "0 < x"
  shows "fl x \<le> 2 powr (of_int (expo x) + 1)"
proof -
  have x: "x \<noteq> 0" using assms by simp
  have "x < 2 powr (of_int (expo x) + 1)" using expo_upper [OF x] assms by simp
  also have "\<dots> = quantum x * 2 ^ 53"
    using quantum_expo [of x] by (simp add: powr_add)
  finally have "x / quantum x \<le> of_int (2 ^ 53)"
    by (simp add: pos_divide_le_eq mult.commute)
  from rne_mono [OF this] have "rne (x / quantum x) \<le> 2 ^ 53" by simp
  then have "(of_int (rne (x / quantum x)) :: real) \<le> of_int (2 ^ 53)"
    by (simp only: of_int_le_iff)
  then have "(of_int (rne (x / quantum x)) :: real) \<le> 2 ^ 53" by simp
  then have "fl x \<le> 2 ^ 53 * quantum x"
    using x by (simp add: fl_def)
  also have "\<dots> = 2 powr (of_int (expo x) + 1)"
    using quantum_expo [of x] by (simp add: powr_add)
  finally show ?thesis .
qed

lemma fl_ge_binade:
  assumes "0 < x" "2 powr (of_int (expo x)) \<le> x"
  shows "2 powr (of_int (expo x)) \<le> fl x"
proof -
  have x: "x \<noteq> 0" using assms by simp
  have "quantum x * 2 ^ 52 \<le> x" using assms(2) quantum_expo [of x] by simp
  then have "of_int (2 ^ 52) \<le> x / quantum x"
    by (simp add: pos_le_divide_eq mult.commute)
  from rne_mono [OF this] have "2 ^ 52 \<le> rne (x / quantum x)" by simp
  then have "(of_int (2 ^ 52) :: real) \<le> of_int (rne (x / quantum x))"
    by (simp only: of_int_le_iff)
  then have "(2 ^ 52 :: real) \<le> of_int (rne (x / quantum x))" by simp
  then have "2 ^ 52 * quantum x \<le> fl x"
    using x by (simp add: fl_def)
  then show ?thesis using quantum_expo [of x] by (simp add: mult.commute)
qed

lemma fl_mono_pos:
  assumes "0 < x" "x \<le> y"
  shows "fl x \<le> fl y"
proof -
  have x: "x \<noteq> 0" and y: "y \<noteq> 0" "0 < y" using assms by simp_all
  have le: "expo x \<le> expo y" using expo_mono [OF x, of y] assms by simp
  show ?thesis
  proof (cases "expo x = expo y")
    case True
    then have q: "quantum y = quantum x" by (simp add: quantum_def)
    have "x / quantum x \<le> y / quantum x" using assms by (simp add: divide_right_mono)
    from rne_mono [OF this] have "(of_int (rne (x / quantum x)) :: real) \<le> of_int (rne (y / quantum x))"
      by simp
    then show ?thesis using x y by (simp add: fl_def q)
  next
    case False
    with le have lt: "expo x + 1 \<le> expo y" by simp
    have "- 1022 \<le> expo x" by (simp add: expo_def)
    with lt have "- 1022 < expo y" by simp
    then have "expo y = \<lfloor>log 2 \<bar>y\<bar>\<rfloor>" by (simp add: expo_def max_def split: if_splits)
    then have "of_int (expo y) \<le> log 2 y" using y by simp
    then have ey: "2 powr (of_int (expo y)) \<le> y" using y by (simp add: le_log_iff)
    have "fl x \<le> 2 powr (of_int (expo x) + 1)" by (rule fl_le_binade [OF assms(1)])
    also have "\<dots> \<le> 2 powr (of_int (expo y))"
    proof -
      have "(of_int (expo x) :: real) + 1 \<le> of_int (expo y)" using lt by linarith
      then show ?thesis by simp
    qed
    also have "\<dots> \<le> fl y" by (rule fl_ge_binade [OF y(2) ey])
    finally show ?thesis .
  qed
qed

lemma fl_mono: "x \<le> y \<Longrightarrow> fl x \<le> fl y"
proof -
  assume le: "x \<le> y"
  consider "0 < x" | "x \<le> 0" "0 \<le> y" | "y < 0" by linarith
  then show ?thesis
  proof cases
    case 1
    then show ?thesis using le by (rule fl_mono_pos)
  next
    case 2
    from 2(1) have "0 \<le> fl (- x)" by (intro fl_nonneg) simp
    then have "fl x \<le> 0" by (simp add: fl_minus)
    also have "0 \<le> fl y" using 2(2) by (rule fl_nonneg)
    finally show ?thesis .
  next
    case 3
    then have "0 < - y" "- y \<le> - x" using le by simp_all
    from fl_mono_pos [OF this] show ?thesis by (simp add: fl_minus)
  qed
qed

lemma fl_eqI:
  assumes "k \<le> 1074" "2 ^ 52 \<le> \<bar>x\<bar> * 2 ^ k" "\<bar>x\<bar> * 2 ^ k < 2 ^ 53"
    "\<bar>x * 2 ^ k - of_int m\<bar> < 1 / 2 \<or> \<bar>x * 2 ^ k - of_int m\<bar> = 1 / 2 \<and> even m"
  shows "fl x = of_int m / 2 ^ k"
proof -
  have x: "x \<noteq> 0" using assms(2) by auto
  then have p: "0 < \<bar>x\<bar>" by simp
  have k: "(2::real) ^ k = 2 powr (of_nat k)" by (simp add: powr_realpow)
  have "2 powr (52 - of_nat k) \<le> \<bar>x\<bar>"
  proof -
    have "(2::real) powr (52 - of_nat k) = 2 ^ 52 / 2 ^ k"
      by (simp add: powr_diff k powr_numeral)
    also have "\<dots> \<le> \<bar>x\<bar>" using assms(2) by (simp add: pos_divide_le_eq)
    finally show ?thesis .
  qed
  moreover have "\<bar>x\<bar> < 2 powr (52 - of_nat k + 1)"
  proof -
    have "\<bar>x\<bar> < 2 ^ 53 / 2 ^ k" using assms(3) by (simp add: pos_less_divide_eq)
    also have "\<dots> = 2 powr (52 - of_nat k + 1)"
      by (simp add: powr_diff powr_add k powr_numeral)
    finally show ?thesis .
  qed
  ultimately have "\<lfloor>log 2 \<bar>x\<bar>\<rfloor> = 52 - int k"
    using p floor_log_eq_powr_iff [of "\<bar>x\<bar>" 2 "52 - int k"] by simp
  then have e: "expo x = 52 - int k" using assms(1) by (simp add: expo_def)
  have q: "quantum x = 1 / 2 ^ k"
    by (simp add: quantum_def e k powr_minus divide_simps)
  have "x / quantum x = x * 2 ^ k" by (simp add: q)
  then have "rne (x / quantum x) = m"
    using rne_nearest [OF assms(4)] by simp
  then show ?thesis using x by (simp add: fl_def q)
qed

lemma fl_sqrt_eqI:
  assumes k: "k \<le> 1074" and s: "0 \<le> s" and m: "1 \<le> m"
    and a1: "(2 ^ 52)\<^sup>2 \<le> s * (2 ^ k)\<^sup>2" and a2: "s * (2 ^ k)\<^sup>2 < (2 ^ 53)\<^sup>2"
    and b3: "(2 * of_int m - 1)\<^sup>2 < 4 * (s * (2 ^ k)\<^sup>2)"
    and b4: "4 * (s * (2 ^ k)\<^sup>2) < (2 * of_int m + 1)\<^sup>2"
  shows "fl (sqrt s) = of_int m / 2 ^ k"
proof (rule fl_eqI [OF k])
  have "(of_int m - 1 / 2 :: real)\<^sup>2 = (2 * of_int m - 1)\<^sup>2 / 4"
    by (simp add: power2_eq_square field_simps)
  with b3 have a3: "(of_int m - 1 / 2)\<^sup>2 < s * (2 ^ k)\<^sup>2" by simp
  have "(of_int m + 1 / 2 :: real)\<^sup>2 = (2 * of_int m + 1)\<^sup>2 / 4"
    by (simp add: power2_eq_square field_simps)
  with b4 have a4: "s * (2 ^ k)\<^sup>2 < (of_int m + 1 / 2)\<^sup>2" by simp
  define y where "y = sqrt s * 2 ^ k"
  have y: "y = sqrt (s * (2 ^ k)\<^sup>2)" by (simp add: y_def real_sqrt_mult)
  have ay: "\<bar>sqrt s\<bar> * 2 ^ k = y" using s by (simp add: y_def)
  have m0: "(0::real) \<le> of_int m - 1 / 2" "(0::real) \<le> of_int m + 1 / 2" using m by simp_all
  show "2 ^ 52 \<le> \<bar>sqrt s\<bar> * 2 ^ k" unfolding ay y using a1 by (rule real_le_rsqrt)
  show "\<bar>sqrt s\<bar> * 2 ^ k < 2 ^ 53" unfolding ay y using a2 by (intro real_less_lsqrt) simp_all
  have "of_int m - 1 / 2 < y" unfolding y using a3 by (rule real_less_rsqrt)
  moreover have "y < of_int m + 1 / 2" unfolding y using m0(2) a4 by (intro real_less_lsqrt)
  ultimately have "\<bar>sqrt s * 2 ^ k - of_int m\<bar> < 1 / 2" unfolding y_def by linarith
  then show "\<bar>sqrt s * 2 ^ k - of_int m\<bar> < 1 / 2
     \<or> \<bar>sqrt s * 2 ^ k - of_int m\<bar> = 1 / 2 \<and> even m" ..
qed

text \<open>
  The error of one rounding in one formula: a relative error of at most \<open>epsR\<close>, or in
  the subnormal range an absolute error of at most \<open>etaR\<close>.
\<close>

lemma fl_hi: "0 \<le> y \<Longrightarrow> fl y \<le> y * (1 + epsR) + etaR"
  using fl_abs [of y] by (simp add: epsR_def etaR_def algebra_simps)

lemma fl_lo: "0 \<le> y \<Longrightarrow> y * (1 - epsR) \<le> fl y + etaR"
  using fl_abs [of y] by (simp add: epsR_def etaR_def algebra_simps)

lemma fl_abs_hi: "\<bar>fl y\<bar> \<le> \<bar>y\<bar> * (1 + epsR) + etaR"
  using fl_abs [of y] by (simp add: epsR_def etaR_def algebra_simps)

lemma fl_abs_lo: "\<bar>y\<bar> * (1 - epsR) \<le> \<bar>fl y\<bar> + etaR"
  using fl_abs [of y] by (simp add: epsR_def etaR_def algebra_simps)

lemma fl_rel_hi: "2 powr (- 1022) \<le> y \<Longrightarrow> fl y \<le> y * (1 + epsR)"
proof -
  assume a: "2 powr (- 1022) \<le> y"
  have "0 < (2::real) powr (- 1022)" by simp
  with a have "0 < y" by linarith
  have "\<bar>fl y - y\<bar> \<le> \<bar>y\<bar> / 2 ^ 53" using a \<open>0 < y\<close> by (intro fl_rel) simp
  with \<open>0 < y\<close> have "fl y - y \<le> y / 2 ^ 53" by linarith
  moreover have "y * (1 + epsR) = y + y / 2 ^ 53" by (simp add: epsR_def distrib_left)
  ultimately show ?thesis by linarith
qed

lemma fl_rel_lo: "2 powr (- 1022) \<le> y \<Longrightarrow> y * (1 - epsR) \<le> fl y"
proof -
  assume a: "2 powr (- 1022) \<le> y"
  have "0 < (2::real) powr (- 1022)" by simp
  with a have "0 < y" by linarith
  have "\<bar>fl y - y\<bar> \<le> \<bar>y\<bar> / 2 ^ 53" using a \<open>0 < y\<close> by (intro fl_rel) simp
  with \<open>0 < y\<close> have "y - fl y \<le> y / 2 ^ 53" by linarith
  moreover have "y * (1 - epsR) = y - y / 2 ^ 53" by (simp add: epsR_def right_diff_distrib)
  ultimately show ?thesis by linarith
qed

lemma chain_up:
  fixes X Z sx sz s h c e :: real
  assumes c: "0 \<le> c" "c \<le> 1" and e: "0 \<le> e" and s: "0 \<le> s"
    and f1: "X * c \<le> sx + e" and f2: "Z * c \<le> sz + e"
    and f3: "(sx + sz) * c \<le> s + e" and f4: "sqrt s * c \<le> h + e"
  shows "(X + Z) * c ^ 4 \<le> (h + e)\<^sup>2 + 3 * e"
proof -
  have c2: "0 \<le> c\<^sup>2" "c\<^sup>2 \<le> 1" using c by (simp_all add: power_le_one)
  have "(X + Z) * c \<le> sx + sz + 2 * e" using f1 f2 by (simp add: distrib_right)
  then have "(X + Z) * c * c \<le> (sx + sz + 2 * e) * c" using c(1) by (rule mult_right_mono)
  also have "\<dots> = (sx + sz) * c + 2 * e * c" by (simp add: distrib_right)
  also have "\<dots> \<le> (s + e) + 2 * e * 1"
    using f3 c e by (intro add_mono mult_left_mono) simp_all
  finally have a: "(X + Z) * c\<^sup>2 \<le> s + 3 * e" by (simp add: power2_eq_square mult.assoc)
  have "(X + Z) * c\<^sup>2 * c\<^sup>2 \<le> (s + 3 * e) * c\<^sup>2" using a c2(1) by (rule mult_right_mono)
  also have "\<dots> = (sqrt s * c)\<^sup>2 + 3 * e * c\<^sup>2" using s by (simp add: distrib_right power_mult_distrib)
  also have "\<dots> \<le> (h + e)\<^sup>2 + 3 * e * 1"
  proof (intro add_mono mult_left_mono)
    have "0 \<le> sqrt s * c" using s c by simp
    then show "(sqrt s * c)\<^sup>2 \<le> (h + e)\<^sup>2" using f4 by (intro power_mono)
  qed (use c2 e in simp_all)
  finally show ?thesis by (simp add: mult.assoc power2_eq_square power4_eq_xxxx)
qed

lemma chain_down:
  fixes X Z sx sz s h d e :: real
  assumes d: "1 \<le> d" "d \<le> 2" and e: "0 \<le> e" and s: "0 \<le> s" and XZ: "0 \<le> X + Z"
    and f1: "sx \<le> X * d + e" and f2: "sz \<le> Z * d + e"
    and f3: "s \<le> (sx + sz) * d + e" and f4: "h \<le> sqrt s * d + e" and h: "e \<le> h"
  shows "(h - e)\<^sup>2 \<le> (X + Z) * d ^ 4 + 20 * e"
proof -
  have d0: "0 \<le> d" using d by simp
  have d2: "0 \<le> d\<^sup>2" "d\<^sup>2 \<le> 4"
  proof -
    show "0 \<le> d\<^sup>2" by simp
    have "d\<^sup>2 \<le> 2\<^sup>2" using d0 d(2) by (intro power_mono)
    then show "d\<^sup>2 \<le> 4" by simp
  qed
  have "sx + sz \<le> (X + Z) * d + 2 * e" using f1 f2 by (simp add: distrib_right)
  then have "(sx + sz) * d \<le> ((X + Z) * d + 2 * e) * d" using d0 by (rule mult_right_mono)
  also have "\<dots> = (X + Z) * d\<^sup>2 + 2 * e * d" by (simp add: distrib_right power2_eq_square)
  also have "\<dots> \<le> (X + Z) * d\<^sup>2 + 2 * e * 2"
    using d e by (intro add_left_mono mult_left_mono) simp_all
  finally have a: "s \<le> (X + Z) * d\<^sup>2 + 5 * e" using f3 by simp
  have "(h - e)\<^sup>2 \<le> (sqrt s * d)\<^sup>2" using f4 h by (intro power_mono) simp_all
  also have "\<dots> = s * d\<^sup>2" using s by (simp add: power_mult_distrib)
  also have "\<dots> \<le> ((X + Z) * d\<^sup>2 + 5 * e) * d\<^sup>2" using a d2(1) by (rule mult_right_mono)
  also have "\<dots> = (X + Z) * d ^ 4 + 5 * e * d\<^sup>2"
    by (simp add: distrib_right power2_eq_square power4_eq_xxxx)
  also have "\<dots> \<le> (X + Z) * d ^ 4 + 5 * e * 4"
    using d2 e by (intro add_left_mono mult_left_mono) simp_all
  finally show ?thesis by simp
qed


lemma no_overflow: "\<bar>y\<bar> \<le> 2 ^ 1000 \<Longrightarrow> \<not> overflow y"
proof -
  assume a: "\<bar>y\<bar> \<le> 2 ^ 1000"
  have "\<bar>fl y\<bar> \<le> \<bar>y\<bar> * (1 + epsR) + etaR" by (rule fl_abs_hi)
  also have "\<dots> \<le> 2 ^ 1000 * 2 + 1"
    using a by (intro add_mono mult_mono) (simp_all add: epsR_def etaR_def)
  also have "\<dots> < 2 ^ 1024" by simp
  finally show ?thesis by (simp add: overflow_def)
qed
section \<open>The integrator: order of the phases and postcondition\<close>

lemma applyPhysics_phases:
  "applyPhysics p f = integratePosition (clampHorizontal (beforeClamp p f))"
  by (simp add: applyPhysics_def integratePosition_def clampHorizontal_def
      applyGravity_def applyFriction_def addInputForce_def hSpeedOf_def Let_def)

text \<open>
  The speed that the code computes encloses the exact one: four roundings one way, four
  the other.
\<close>

lemma eps_eta [simp]: "0 \<le> epsR" "0 \<le> etaR" "0 < etaR" "epsR \<le> 1" "0 \<le> 1 - epsR" "1 - epsR \<le> 1"
  "1 \<le> 1 + epsR" "1 + epsR \<le> 2" "0 < 1 - epsR" "0 < 1 + epsR"
  by (simp_all add: epsR_def etaR_def)

lemma hSpeedOf_FinD:
  assumes "hSpeedOf v = Fin h"
  shows "h = fl (sqrt (fl (fl (xc v * xc v) + fl (zc v * zc v))))"
    and "\<bar>fl (fl (xc v * xc v) + fl (zc v * zc v))\<bar> < 2 ^ 1024"
  using assms
  by (auto simp add: hSpeedOf_def sqD_def overflow_def split: if_splits)

lemma hSpeedOf_PInfD:
  assumes "hSpeedOf v = PInf"
  shows "exceeds (hSpeedOf v) m" "divD m (hSpeedOf v) = 0"
  using assms by simp_all

lemma enclosure:
  assumes "hSpeedOf v = Fin h"
  shows "0 \<le> h"
    and "(speedXZ v)\<^sup>2 * (1 - epsR) ^ 4 \<le> (h + etaR)\<^sup>2 + 3 * etaR"
    and "etaR \<le> h \<Longrightarrow> (h - etaR)\<^sup>2 \<le> (speedXZ v)\<^sup>2 * (1 + epsR) ^ 4 + 20 * etaR"
    and "h < 2 ^ 514"
proof -
  define X where "X = xc v * xc v"
  define Z where "Z = zc v * zc v"
  define sx where "sx = fl X"
  define sz where "sz = fl Z"
  define s where "s = fl (sx + sz)"
  have h: "h = fl (sqrt s)" and fin: "\<bar>s\<bar> < 2 ^ 1024"
    using hSpeedOf_FinD [OF assms] by (simp_all add: s_def sx_def sz_def X_def Z_def)
  have X: "0 \<le> X" and Z: "0 \<le> Z" by (simp_all add: X_def Z_def)
  have sx: "0 \<le> sx" and sz: "0 \<le> sz" using X Z by (simp_all add: sx_def sz_def fl_nonneg)
  then have s: "0 \<le> s" by (simp add: s_def fl_nonneg)
  have H: "(speedXZ v)\<^sup>2 = X + Z"
    by (simp add: speedXZ_def X_def Z_def power2_eq_square)
  show h0: "0 \<le> h" unfolding h by (intro fl_nonneg) (simp add: s)
  have "(X + Z) * (1 - epsR) ^ 4 \<le> (h + etaR)\<^sup>2 + 3 * etaR"
  proof (rule chain_up [where sx = sx and sz = sz and s = s])
    show "X * (1 - epsR) \<le> sx + etaR" unfolding sx_def by (rule fl_lo [OF X])
    show "Z * (1 - epsR) \<le> sz + etaR" unfolding sz_def by (rule fl_lo [OF Z])
    show "(sx + sz) * (1 - epsR) \<le> s + etaR" unfolding s_def using sx sz by (intro fl_lo) simp
    show "sqrt s * (1 - epsR) \<le> h + etaR" unfolding h by (intro fl_lo) (simp add: s)
  qed (simp_all add: s)
  then show "(speedXZ v)\<^sup>2 * (1 - epsR) ^ 4 \<le> (h + etaR)\<^sup>2 + 3 * etaR"
    by (simp only: H)
  {
    assume eh: "etaR \<le> h"
    have "(h - etaR)\<^sup>2 \<le> (X + Z) * (1 + epsR) ^ 4 + 20 * etaR"
    proof (rule chain_down [where sx = sx and sz = sz and s = s])
      show "sx \<le> X * (1 + epsR) + etaR" unfolding sx_def by (rule fl_hi [OF X])
      show "sz \<le> Z * (1 + epsR) + etaR" unfolding sz_def by (rule fl_hi [OF Z])
      show "s \<le> (sx + sz) * (1 + epsR) + etaR" unfolding s_def using sx sz by (intro fl_hi) simp
      show "h \<le> sqrt s * (1 + epsR) + etaR" unfolding h by (intro fl_hi) (simp add: s)
    qed (use X Z s eh in simp_all)
    then show "(h - etaR)\<^sup>2 \<le> (speedXZ v)\<^sup>2 * (1 + epsR) ^ 4 + 20 * etaR"
      by (simp only: H)
  }
  show "h < 2 ^ 514"
  proof -
    have "s < (2 ^ 512)\<^sup>2" using fin by simp
    then have "sqrt s < sqrt ((2 ^ 512)\<^sup>2)" by (simp only: real_sqrt_less_iff)
    moreover have "sqrt ((2 ^ 512)\<^sup>2) = (2::real) ^ 512" by (rule real_sqrt_unique) simp_all
    ultimately have "sqrt s < 2 ^ 512" by (simp only:)
    moreover have "h \<le> sqrt s * (1 + epsR) + etaR" unfolding h by (intro fl_hi) (simp add: s)
    moreover have "sqrt s * (1 + epsR) \<le> sqrt s * 2" by (intro mult_left_mono) (simp_all add: s)
    moreover have "etaR \<le> 1" by (simp add: etaR_def)
    ultimately show ?thesis by simp
  qed
qed


lemma eta_small: "etaR \<le> 1 / 2 ^ 100"
  by (simp add: etaR_def)

lemma numeric_upper:
  "(1 + epsR)\<^sup>2 * (10 + 2 * (1 / 2 ^ 100)) / (1 - epsR)\<^sup>2 + 2 * (1 / 2 ^ 100) \<le> 10 * (1 + 1 / 2 ^ 50)"
  by (simp add: epsR_def power2_eq_square)

lemma numeric_lower:
  "10 * (1 - 1 / 2 ^ 50) \<le> (1 - epsR)\<^sup>2 * (10 - 3 * (1 / 2 ^ 100)) / (1 + epsR)\<^sup>2 - 2 * (1 / 2 ^ 100)"
  by (simp add: epsR_def power2_eq_square)

lemma numeric_free:
  "(10 + 2 * (1 / 2 ^ 100)) / (1 - epsR)\<^sup>2 \<le> 10 * (1 + 1 / 2 ^ 50)"
  by (simp add: epsR_def power2_eq_square)

lemma clamp_real:
  fixes H h t r c d e S :: real
  assumes c: "0 < c" "c \<le> 1" and d: "1 \<le> d" and e: "0 \<le> e" and H: "0 \<le> H"
    and t: "0 < t" "t \<le> 1" "t * h = 10" and r: "t * c \<le> r" "r \<le> t * d"
    and up: "H * c\<^sup>2 \<le> h + 2 * e" and down: "h - 3 * e \<le> H * d\<^sup>2"
    and S1: "S \<le> d * (r * H) + 2 * e" and S2: "c * (r * H) \<le> S + 2 * e"
  shows "S \<le> d\<^sup>2 * (10 + 2 * e) / c\<^sup>2 + 2 * e"
    and "c\<^sup>2 * (10 - 3 * e) / d\<^sup>2 - 2 * e \<le> S"
proof -
  have c2: "0 < c\<^sup>2" and d2: "0 < d\<^sup>2" using c d by simp_all
  have d0: "0 \<le> d" using d by simp
  have "t * (H * c\<^sup>2) \<le> t * (h + 2 * e)" using up t(1) by (intro mult_left_mono) simp_all
  also have "\<dots> = 10 + 2 * e * t" using t(3) by (simp add: distrib_left)
  also have "\<dots> \<le> 10 + 2 * e * 1" using t(2) e by (intro add_left_mono mult_left_mono) simp_all
  finally have "t * H * c\<^sup>2 \<le> 10 + 2 * e" by (simp add: mult.assoc)
  then have tH: "t * H \<le> (10 + 2 * e) / c\<^sup>2" using c2 by (simp add: pos_le_divide_eq)
  have "r * H \<le> t * d * H" using r(2) H by (rule mult_right_mono)
  also have "\<dots> = d * (t * H)" by simp
  also have "\<dots> \<le> d * ((10 + 2 * e) / c\<^sup>2)" using tH d0 by (rule mult_left_mono)
  finally have "d * (r * H) \<le> d * (d * ((10 + 2 * e) / c\<^sup>2))" using d0 by (rule mult_left_mono)
  also have "\<dots> = d\<^sup>2 * (10 + 2 * e) / c\<^sup>2" by (simp add: power2_eq_square)
  finally show "S \<le> d\<^sup>2 * (10 + 2 * e) / c\<^sup>2 + 2 * e" using S1 by linarith
  have "10 - 3 * e * 1 \<le> 10 - 3 * e * t" using t(2) e by (intro diff_left_mono mult_left_mono) simp_all
  also have "\<dots> = t * (h - 3 * e)" using t(3) by (simp add: right_diff_distrib)
  also have "\<dots> \<le> t * (H * d\<^sup>2)" using down t(1) by (intro mult_left_mono) simp_all
  finally have "10 - 3 * e \<le> t * H * d\<^sup>2" by (simp add: mult.assoc)
  then have tH': "(10 - 3 * e) / d\<^sup>2 \<le> t * H" using d2 by (simp add: pos_divide_le_eq)
  have c0: "0 \<le> c" using c by simp
  have "c * ((10 - 3 * e) / d\<^sup>2) \<le> c * (t * H)" using tH' c0 by (rule mult_left_mono)
  also have "\<dots> = t * c * H" by simp
  also have "\<dots> \<le> r * H" using r(1) H by (rule mult_right_mono)
  finally have "c * (c * ((10 - 3 * e) / d\<^sup>2)) \<le> c * (r * H)" using c0 by (rule mult_left_mono)
  moreover have "c * (c * ((10 - 3 * e) / d\<^sup>2)) = c\<^sup>2 * (10 - 3 * e) / d\<^sup>2"
    by (simp add: power2_eq_square)
  ultimately show "c\<^sup>2 * (10 - 3 * e) / d\<^sup>2 - 2 * e \<le> S" using S2 by linarith
qed

text \<open>The exact speed after the rescaling, from the roundings of the ratio and of the two products.\<close>

lemma scaled_norm: "0 \<le> k \<Longrightarrow> sqrt ((a * k)\<^sup>2 + (b * k)\<^sup>2) = k * sqrt (a\<^sup>2 + b\<^sup>2)"
proof -
  assume k: "0 \<le> k"
  have "(a * k)\<^sup>2 + (b * k)\<^sup>2 = k\<^sup>2 * (a\<^sup>2 + b\<^sup>2)"
    by (simp add: power_mult_distrib distrib_left mult.commute)
  then show ?thesis using k by (simp add: real_sqrt_mult)
qed

lemma norm_mono:
  assumes "\<bar>a\<bar> \<le> a'" "\<bar>b\<bar> \<le> b'"
  shows "sqrt (a\<^sup>2 + b\<^sup>2) \<le> sqrt (a'\<^sup>2 + b'\<^sup>2)"
proof -
  have "\<bar>a\<bar>\<^sup>2 \<le> a'\<^sup>2" using assms(1) by (intro power_mono) simp_all
  moreover have "\<bar>b\<bar>\<^sup>2 \<le> b'\<^sup>2" using assms(2) by (intro power_mono) simp_all
  ultimately have "a\<^sup>2 + b\<^sup>2 \<le> a'\<^sup>2 + b'\<^sup>2" by simp
  then show ?thesis by simp
qed

lemma sqrt_ee: "0 \<le> e \<Longrightarrow> sqrt (e\<^sup>2 + e\<^sup>2) \<le> 2 * e"
proof -
  assume e: "0 \<le> e"
  have "e\<^sup>2 + e\<^sup>2 \<le> (2 * e)\<^sup>2" by (simp add: power_mult_distrib)
  then have "sqrt (e\<^sup>2 + e\<^sup>2) \<le> sqrt ((2 * e)\<^sup>2)" by (simp only: real_sqrt_le_iff)
  also have "\<dots> = \<bar>2 * e\<bar>" by (rule real_sqrt_abs)
  also have "\<dots> = 2 * e" using e by simp
  finally show ?thesis .
qed

lemma widen_up:
  fixes h e :: real
  assumes "10 \<le> h" "0 \<le> e"
  shows "(h + e)\<^sup>2 + 3 * e \<le> (h + 2 * e)\<^sup>2"
proof -
  have "3 * e \<le> (2 * h) * e" using assms by (intro mult_right_mono) simp_all
  moreover have "0 \<le> e * e" using assms(2) by simp
  moreover have "(h + 2 * e)\<^sup>2 = (h + e)\<^sup>2 + (2 * h) * e + 3 * (e * e)"
    by (simp add: power2_eq_square algebra_simps)
  ultimately show ?thesis by linarith
qed

lemma widen_down:
  fixes h e :: real
  assumes "10 < h" "0 \<le> e" "e \<le> 1"
  shows "(h - 3 * e)\<^sup>2 + 20 * e \<le> (h - e)\<^sup>2"
proof -
  have "5 \<le> h - 2 * e" using assms by linarith
  then have "5 * e \<le> (h - 2 * e) * e" using assms(2) by (rule mult_right_mono)
  moreover have "(h - e)\<^sup>2 = (h - 3 * e)\<^sup>2 + 4 * ((h - 2 * e) * e)"
    by (simp add: power2_eq_square algebra_simps)
  ultimately show ?thesis by linarith
qed

lemma clamp_speed:
  assumes F: "hSpeedOf v = Fin h" and gt: "10 < h"
  shows "10 * (1 - 1 / 2 ^ 50)
           \<le> speedXZ (v\<lparr>xc := fl (xc v * fl (10 / h)), zc := fl (zc v * fl (10 / h))\<rparr>)"
    and "speedXZ (v\<lparr>xc := fl (xc v * fl (10 / h)), zc := fl (zc v * fl (10 / h))\<rparr>)
           \<le> 10 * (1 + 1 / 2 ^ 50)"
proof -
  define c where "c = 1 - epsR"
  define d where "d = 1 + epsR"
  define e where "e = (1::real) / 2 ^ 100"
  define t where "t = 10 / h"
  define r where "r = fl t"
  define H where "H = speedXZ v"
  define x' where "x' = fl (xc v * r)"
  define z' where "z' = fl (zc v * r)"
  define S where "S = sqrt (x'\<^sup>2 + z'\<^sup>2)"
  define A where "A = \<bar>xc v\<bar> * r"
  define B where "B = \<bar>zc v\<bar> * r"
  have S: "speedXZ (v\<lparr>xc := fl (xc v * fl (10 / h)), zc := fl (zc v * fl (10 / h))\<rparr>) = S"
    by (simp add: speedXZ_def S_def x'_def z'_def r_def t_def)
  have c: "0 < c" "c \<le> 1" and d: "1 \<le> d" "0 \<le> d"
    by (simp_all add: c_def d_def epsR_def)
  have e: "0 \<le> e" "etaR \<le> e"
    unfolding e_def by (simp, rule eta_small)
  have H: "0 \<le> H" by (simp add: H_def speedXZ_def)
  have h: "0 < h" "h < 2 ^ 514" using gt enclosure(4) [OF F] by simp_all
  have t: "0 < t" "t \<le> 1" "t * h = 10" using h(1) gt by (simp_all add: t_def)
  have n: "2 powr (- 1022) \<le> t"
  proof -
    have "(2::real) powr (- 1022) = 1 / 2 ^ 1022"
      by (simp add: powr_minus powr_numeral divide_simps)
    also have "\<dots> \<le> 10 / 2 ^ 514" by simp
    also have "\<dots> \<le> 10 / h" using h by (intro divide_left_mono) simp_all
    finally show ?thesis by (simp add: t_def)
  qed
  have r: "t * c \<le> r" "r \<le> t * d" unfolding r_def c_def d_def
    by (rule fl_rel_lo [OF n], rule fl_rel_hi [OF n])
  have r0: "0 \<le> r" unfolding r_def using t(1) by (intro fl_nonneg) simp
  have A: "\<bar>xc v * r\<bar> = A" and B: "\<bar>zc v * r\<bar> = B" using r0 by (simp_all add: A_def B_def abs_mult)
  have A0: "0 \<le> A" and B0: "0 \<le> B" using r0 by (simp_all add: A_def B_def)
  have nAB: "sqrt ((A * k)\<^sup>2 + (B * k)\<^sup>2) = k * (r * H)" if "0 \<le> k" for k
  proof -
    have "sqrt ((A * k)\<^sup>2 + (B * k)\<^sup>2) = sqrt ((\<bar>xc v\<bar> * (r * k))\<^sup>2 + (\<bar>zc v\<bar> * (r * k))\<^sup>2)"
      by (simp add: A_def B_def mult.assoc)
    also have "\<dots> = r * k * sqrt (\<bar>xc v\<bar>\<^sup>2 + \<bar>zc v\<bar>\<^sup>2)"
      using r0 that by (intro scaled_norm) simp
    also have "\<dots> = k * (r * H)" by (simp add: H_def speedXZ_def)
    finally show ?thesis .
  qed
  have x1: "\<bar>x'\<bar> \<le> A * d + e" "A * c \<le> \<bar>x'\<bar> + e"
    using fl_abs_hi [of "xc v * r"] fl_abs_lo [of "xc v * r"] e(2)
    by (simp_all add: x'_def A d_def c_def)
  have z1: "\<bar>z'\<bar> \<le> B * d + e" "B * c \<le> \<bar>z'\<bar> + e"
    using fl_abs_hi [of "zc v * r"] fl_abs_lo [of "zc v * r"] e(2)
    by (simp_all add: z'_def B d_def c_def)
  have S1: "S \<le> d * (r * H) + 2 * e"
  proof -
    have "S \<le> sqrt ((A * d + e)\<^sup>2 + (B * d + e)\<^sup>2)"
      unfolding S_def by (rule norm_mono [OF x1(1) z1(1)])
    also have "\<dots> \<le> sqrt ((A * d)\<^sup>2 + (B * d)\<^sup>2) + sqrt (e\<^sup>2 + e\<^sup>2)"
      by (rule real_sqrt_sum_squares_triangle_ineq)
    also have "\<dots> \<le> d * (r * H) + 2 * e"
      using nAB [OF d(2)] sqrt_ee [OF e(1)] by simp
    finally show ?thesis .
  qed
  have S2: "c * (r * H) \<le> S + 2 * e"
  proof -
    have "\<bar>A * c\<bar> \<le> \<bar>x'\<bar> + e" "\<bar>B * c\<bar> \<le> \<bar>z'\<bar> + e"
      using x1(2) z1(2) A0 B0 c(1) by (simp_all add: abs_mult)
    then have "sqrt ((A * c)\<^sup>2 + (B * c)\<^sup>2) \<le> sqrt ((\<bar>x'\<bar> + e)\<^sup>2 + (\<bar>z'\<bar> + e)\<^sup>2)"
      by (rule norm_mono)
    also have "\<dots> \<le> sqrt (\<bar>x'\<bar>\<^sup>2 + \<bar>z'\<bar>\<^sup>2) + sqrt (e\<^sup>2 + e\<^sup>2)"
      by (rule real_sqrt_sum_squares_triangle_ineq)
    also have "\<dots> \<le> S + 2 * e" using sqrt_ee [OF e(1)] by (simp add: S_def)
    finally show ?thesis using nAB [of c] c(1) by simp
  qed
  have eta: "0 \<le> etaR" "etaR \<le> 1" by (simp_all add: etaR_def)
  have up: "H * c\<^sup>2 \<le> h + 2 * e"
  proof -
    have "(H * c\<^sup>2)\<^sup>2 = H\<^sup>2 * c ^ 4" by (simp add: power_mult_distrib)
    also have "\<dots> \<le> (h + etaR)\<^sup>2 + 3 * etaR"
      using enclosure(2) [OF F] by (simp add: H_def c_def)
    also have "\<dots> \<le> (h + 2 * etaR)\<^sup>2"
      using gt eta(1) by (intro widen_up) simp_all
    finally have sq: "(H * c\<^sup>2)\<^sup>2 \<le> (h + 2 * etaR)\<^sup>2" .
    have "0 \<le> h + 2 * etaR" using h(1) eta(1) by linarith
    with sq have "H * c\<^sup>2 \<le> h + 2 * etaR" by (rule power2_le_imp_le)
    then show ?thesis using e(2) by linarith
  qed
  have down: "h - 3 * e \<le> H * d\<^sup>2"
  proof -
    have eh: "etaR \<le> h" using eta gt by linarith
    have "(h - 3 * etaR)\<^sup>2 + 20 * etaR \<le> (h - etaR)\<^sup>2"
      using gt eta by (rule widen_down)
    also have "\<dots> \<le> H\<^sup>2 * d ^ 4 + 20 * etaR"
      using enclosure(3) [OF F eh] by (simp add: H_def d_def)
    finally have "(h - 3 * etaR)\<^sup>2 \<le> H\<^sup>2 * d ^ 4" by simp
    also have "\<dots> = (H * d\<^sup>2)\<^sup>2" by (simp add: power_mult_distrib)
    finally have sq: "(h - 3 * etaR)\<^sup>2 \<le> (H * d\<^sup>2)\<^sup>2" .
    have "0 \<le> H * d\<^sup>2" using H by simp
    with sq have "h - 3 * etaR \<le> H * d\<^sup>2" by (rule power2_le_imp_le)
    then show ?thesis using e(2) by linarith
  qed
  note cr = clamp_real [OF c d(1) e(1) H t r up down S1 S2, unfolded c_def d_def e_def]
  show "10 * (1 - 1 / 2 ^ 50)
           \<le> speedXZ (v\<lparr>xc := fl (xc v * fl (10 / h)), zc := fl (zc v * fl (10 / h))\<rparr>)"
    unfolding S by (rule order_trans [OF numeric_lower cr(2)])
  show "speedXZ (v\<lparr>xc := fl (xc v * fl (10 / h)), zc := fl (zc v * fl (10 / h))\<rparr>)
           \<le> 10 * (1 + 1 / 2 ^ 50)"
    unfolding S by (rule order_trans [OF cr(1) numeric_upper])
qed

lemma free_speed:
  assumes F: "hSpeedOf v = Fin h" and le: "h \<le> 10"
  shows "speedXZ v \<le> 10 * (1 + 1 / 2 ^ 50)"
proof -
  define c where "c = 1 - epsR"
  define H where "H = speedXZ v"
  have c: "0 < c\<^sup>2" by (simp add: c_def epsR_def)
  have H: "0 \<le> H" by (simp add: H_def speedXZ_def)
  have eta: "0 \<le> etaR" by (simp add: etaR_def)
  have h0: "0 \<le> h" by (rule enclosure(1) [OF F])
  have "(H * c\<^sup>2)\<^sup>2 = H\<^sup>2 * c ^ 4" by (simp add: power_mult_distrib)
  also have "\<dots> \<le> (h + etaR)\<^sup>2 + 3 * etaR"
    using enclosure(2) [OF F] by (simp add: H_def c_def)
  also have "\<dots> \<le> (10 + etaR)\<^sup>2 + 3 * etaR"
    using h0 eta le by (intro add_right_mono power_mono) simp_all
  also have "\<dots> \<le> (10 + 2 * etaR)\<^sup>2"
    using eta by (intro widen_up) simp_all
  finally have sq: "(H * c\<^sup>2)\<^sup>2 \<le> (10 + 2 * etaR)\<^sup>2" .
  have "0 \<le> 10 + 2 * etaR" using eta by linarith
  with sq have "H * c\<^sup>2 \<le> 10 + 2 * etaR" by (rule power2_le_imp_le)
  also have "\<dots> \<le> 10 + 2 * (1 / 2 ^ 100)" using eta_small by linarith
  finally have "H \<le> (10 + 2 * (1 / 2 ^ 100)) / c\<^sup>2" using c by (simp add: pos_le_divide_eq)
  also have "\<dots> \<le> 10 * (1 + 1 / 2 ^ 50)" unfolding c_def by (rule numeric_free)
  finally show ?thesis by (simp only: H_def)
qed

lemma clampHorizontal_vel:
  "vel (clampHorizontal q) =
     (case hSpeedOf (vel q) of
        Fin h \<Rightarrow> if maxSpeed < h
                 then (vel q)\<lparr>xc := fl (xc (vel q) * fl (maxSpeed / h)),
                              zc := fl (zc (vel q) * fl (maxSpeed / h))\<rparr>
                 else vel q
      | PInf \<Rightarrow> (vel q)\<lparr>xc := 0, zc := 0\<rparr>)"
  by (simp add: clampHorizontal_def split: ext.splits)

lemma clampHorizontal_speed:
  "speedXZ (vel (clampHorizontal q)) \<le> maxSpeed * (1 + 1 / 2 ^ 50)"
  "(case hSpeedOf (vel q) of
      Fin h \<Rightarrow> maxSpeed < h \<longrightarrow> maxSpeed * (1 - 1 / 2 ^ 50) \<le> speedXZ (vel (clampHorizontal q))
    | PInf \<Rightarrow> speedXZ (vel (clampHorizontal q)) = 0)"
proof -
  show "speedXZ (vel (clampHorizontal q)) \<le> maxSpeed * (1 + 1 / 2 ^ 50)"
  proof (cases "hSpeedOf (vel q)")
    case (Fin h)
    show ?thesis
    proof (cases "maxSpeed < h")
      case True
      then have "10 < h" by (simp add: maxSpeed_def)
      from clamp_speed(2) [OF Fin this] True show ?thesis
        by (simp add: clampHorizontal_vel Fin maxSpeed_def)
    next
      case False
      then have "h \<le> 10" by (simp add: maxSpeed_def)
      from free_speed [OF Fin this] False show ?thesis
        by (simp add: clampHorizontal_vel Fin maxSpeed_def)
    qed
  next
    case PInf
    then show ?thesis by (simp add: clampHorizontal_vel speedXZ_def maxSpeed_def)
  qed
  show "(case hSpeedOf (vel q) of
      Fin h \<Rightarrow> maxSpeed < h \<longrightarrow> maxSpeed * (1 - 1 / 2 ^ 50) \<le> speedXZ (vel (clampHorizontal q))
    | PInf \<Rightarrow> speedXZ (vel (clampHorizontal q)) = 0)"
  proof (cases "hSpeedOf (vel q)")
    case (Fin h)
    show ?thesis
    proof (cases "maxSpeed < h")
      case True
      then have "10 < h" by (simp add: maxSpeed_def)
      from clamp_speed(1) [OF Fin this] True show ?thesis
        by (simp add: clampHorizontal_vel Fin maxSpeed_def)
    next
      case False
      then show ?thesis by (simp add: Fin)
    qed
  next
    case PInf
    then show ?thesis by (simp add: clampHorizontal_vel speedXZ_def)
  qed
qed

text \<open>A call of the integrator whose operations are given one by one.\<close>

lemma applyPhysics_trace:
  assumes "fl (vx + fx) = a1" "fl (vy + fy) = b1" "fl (vz + fz) = c1"
    and "fl (a1 * friction) = a2" "fl (c1 * friction) = c2" "fl (b1 - gravity) = b3"
    and "fl (a2 * a2) = sx" "fl (c2 * c2) = sz" "fl (sx + sz) = s" "fl (sqrt s) = h"
    and "fl (maxSpeed / h) = r" "fl (a2 * r) = a4" "fl (c2 * r) = c4"
    and "fl (px + a4) = px'" "fl (py + b3) = py'" "fl (pz + c4) = pz'"
    and "\<bar>sx\<bar> < 2 ^ 1024" "\<bar>sz\<bar> < 2 ^ 1024" "\<bar>s\<bar> < 2 ^ 1024" "maxSpeed < h"
  shows "applyPhysics \<lparr>pos = V3 px py pz, vel = V3 vx vy vz, grounded = g, coyoteTime = c\<rparr> (V3 fx fy fz)
         = \<lparr>pos = V3 px' py' pz', vel = V3 a4 b3 c4, grounded = g, coyoteTime = c\<rparr>"
  using assms(17-20)
  by (simp add: applyPhysics_def addV_def Let_def sqD_def overflow_def assms(1-16))

lemma hSpeedOf_trace:
  assumes "fl (x * x) = sx" "fl (z * z) = sz" "fl (sx + sz) = s" "fl (sqrt s) = h"
    and "\<bar>sx\<bar> < 2 ^ 1024" "\<bar>sz\<bar> < 2 ^ 1024" "\<bar>s\<bar> < 2 ^ 1024"
  shows "hSpeedOf (V3 x y z) = Fin h"
  using assms(5-7) by (simp add: hSpeedOf_def sqD_def overflow_def assms(1-4))

lemma beforeClamp_trace:
  assumes "fl (vx + fx) = a1" "fl (vy + fy) = b1" "fl (vz + fz) = c1"
    and "fl (a1 * friction) = a2" "fl (c1 * friction) = c2" "fl (b1 - gravity) = b3"
  shows "beforeClamp \<lparr>pos = V3 px py pz, vel = V3 vx vy vz, grounded = g, coyoteTime = c\<rparr> (V3 fx fy fz)
         = \<lparr>pos = V3 px py pz, vel = V3 a2 b3 c2, grounded = g, coyoteTime = c\<rparr>"
  by (simp add: applyGravity_def applyFriction_def addInputForce_def addV_def assms)

lemma friction_val: "friction = (7385903388887613 / 2 ^ 53)"
  unfolding friction_def using fl_eqI [where k = 53 and m = "7385903388887613" and x = "0.82"] by simp

lemma gravity_val: "gravity = (5854679515581645 / 2 ^ 53)"
  unfolding gravity_def using fl_eqI [where k = 53 and m = "5854679515581645" and x = "0.65"] by simp

text \<open>
  The call with the velocity \<open>(11, 0, - 55)\<close> and no input force, operation by operation,
  and the horizontal speed of its result as the code would compute it.
\<close>

lemma clamp_steps:
  shows "fl (11 + 0) = 11"
    and "fl (0 + 0) = 0"
    and "fl (- 55 + 0) = (- 55)"
    and "fl (11 * friction) = (5077808579860234 / 2 ^ 49)"
    and "fl (- 55 * friction) = (- (6347260724825292 / 2 ^ 47))"
    and "fl (0 - gravity) = (- (5854679515581645 / 2 ^ 53))"
    and "fl ((5077808579860234 / 2 ^ 49) * (5077808579860234 / 2 ^ 49)) = (5725229173792414 / 2 ^ 46)"
    and "fl ((- (6347260724825292 / 2 ^ 47)) * (- (6347260724825292 / 2 ^ 47))) = (8945670584050645 / 2 ^ 42)"
    and "fl ((5725229173792414 / 2 ^ 46) + (8945670584050645 / 2 ^ 42)) = (4651748703706335 / 2 ^ 41)"
    and "fl (sqrt (4651748703706335 / 2 ^ 41)) = (6472961258749049 / 2 ^ 47)"
    and "fl (maxSpeed / (6472961258749049 / 2 ^ 47)) = (7833512666338515 / 2 ^ 55)"
    and "fl ((5077808579860234 / 2 ^ 49) * (7833512666338515 / 2 ^ 55)) = (8832285531296675 / 2 ^ 52)"
    and "fl ((- (6347260724825292 / 2 ^ 47)) * (7833512666338515 / 2 ^ 55)) = (- (5520178457060422 / 2 ^ 49))"
    and "fl (0 + (8832285531296675 / 2 ^ 52)) = (8832285531296675 / 2 ^ 52)"
    and "fl (0 + (- (5854679515581645 / 2 ^ 53))) = (- (5854679515581645 / 2 ^ 53))"
    and "fl (0 + (- (5520178457060422 / 2 ^ 49))) = (- (5520178457060422 / 2 ^ 49))"
    and "\<bar>(5725229173792414 / 2 ^ 46)\<bar> < (2::real) ^ 1024"
    and "\<bar>(8945670584050645 / 2 ^ 42)\<bar> < (2::real) ^ 1024"
    and "\<bar>(4651748703706335 / 2 ^ 41)\<bar> < (2::real) ^ 1024"
    and "maxSpeed < (6472961258749049 / 2 ^ 47)"
proof -
  show "fl (11 + 0) = 11"
    using fl_eqI [where k = 49 and m = "6192449487634432" and x = "11 + 0"] by (simp)
  show "fl (0 + 0) = 0"
    by simp
  show "fl (- 55 + 0) = (- 55)"
    using fl_eqI [where k = 47 and m = "-7740561859543040" and x = "- 55 + 0"] by (simp)
  show "fl (11 * friction) = (5077808579860234 / 2 ^ 49)"
    using fl_eqI [where k = 49 and m = "5077808579860234" and x = "11 * friction"] by (simp add: friction_val)
  show "fl (- 55 * friction) = (- (6347260724825292 / 2 ^ 47))"
    using fl_eqI [where k = 47 and m = "-6347260724825292" and x = "- 55 * friction"] by (simp add: friction_val)
  show "fl (0 - gravity) = (- (5854679515581645 / 2 ^ 53))"
    using fl_eqI [where k = 53 and m = "-5854679515581645" and x = "0 - gravity"] by (simp add: gravity_val)
  show "fl ((5077808579860234 / 2 ^ 49) * (5077808579860234 / 2 ^ 49)) = (5725229173792414 / 2 ^ 46)"
    using fl_eqI [where k = 46 and m = "5725229173792414" and x = "(5077808579860234 / 2 ^ 49) * (5077808579860234 / 2 ^ 49)"] by (simp)
  show "fl ((- (6347260724825292 / 2 ^ 47)) * (- (6347260724825292 / 2 ^ 47))) = (8945670584050645 / 2 ^ 42)"
    using fl_eqI [where k = 42 and m = "8945670584050645" and x = "(- (6347260724825292 / 2 ^ 47)) * (- (6347260724825292 / 2 ^ 47))"] by (simp)
  show "fl ((5725229173792414 / 2 ^ 46) + (8945670584050645 / 2 ^ 42)) = (4651748703706335 / 2 ^ 41)"
    using fl_eqI [where k = 41 and m = "4651748703706335" and x = "(5725229173792414 / 2 ^ 46) + (8945670584050645 / 2 ^ 42)"] by (simp)
  show "fl (sqrt (4651748703706335 / 2 ^ 41)) = (6472961258749049 / 2 ^ 47)"
    using fl_sqrt_eqI [where k = 47 and m = "6472961258749049" and s = "(4651748703706335 / 2 ^ 41)"] by simp
  show "fl (maxSpeed / (6472961258749049 / 2 ^ 47)) = (7833512666338515 / 2 ^ 55)"
    using fl_eqI [where k = 55 and m = "7833512666338515" and x = "maxSpeed / (6472961258749049 / 2 ^ 47)"] by (simp add: maxSpeed_def)
  show "fl ((5077808579860234 / 2 ^ 49) * (7833512666338515 / 2 ^ 55)) = (8832285531296675 / 2 ^ 52)"
    using fl_eqI [where k = 52 and m = "8832285531296675" and x = "(5077808579860234 / 2 ^ 49) * (7833512666338515 / 2 ^ 55)"] by (simp)
  show "fl ((- (6347260724825292 / 2 ^ 47)) * (7833512666338515 / 2 ^ 55)) = (- (5520178457060422 / 2 ^ 49))"
    using fl_eqI [where k = 49 and m = "-5520178457060422" and x = "(- (6347260724825292 / 2 ^ 47)) * (7833512666338515 / 2 ^ 55)"] by (simp)
  show "fl (0 + (8832285531296675 / 2 ^ 52)) = (8832285531296675 / 2 ^ 52)"
    using fl_eqI [where k = 52 and m = "8832285531296675" and x = "0 + (8832285531296675 / 2 ^ 52)"] by (simp)
  show "fl (0 + (- (5854679515581645 / 2 ^ 53))) = (- (5854679515581645 / 2 ^ 53))"
    using fl_eqI [where k = 53 and m = "-5854679515581645" and x = "0 + (- (5854679515581645 / 2 ^ 53))"] by (simp)
  show "fl (0 + (- (5520178457060422 / 2 ^ 49))) = (- (5520178457060422 / 2 ^ 49))"
    using fl_eqI [where k = 49 and m = "-5520178457060422" and x = "0 + (- (5520178457060422 / 2 ^ 49))"] by (simp)
  show "\<bar>(5725229173792414 / 2 ^ 46)\<bar> < (2::real) ^ 1024"
    by simp
  show "\<bar>(8945670584050645 / 2 ^ 42)\<bar> < (2::real) ^ 1024"
    by simp
  show "\<bar>(4651748703706335 / 2 ^ 41)\<bar> < (2::real) ^ 1024"
    by simp
  show "maxSpeed < (6472961258749049 / 2 ^ 47)"
    by (simp add: maxSpeed_def)
qed

lemma clamp_example:
  "applyPhysics \<lparr>pos = V3 0 0 0, vel = V3 11 0 (- 55), grounded = False, coyoteTime = 0\<rparr> (V3 0 0 0)
     = \<lparr>pos = V3 (8832285531296675 / 2 ^ 52) (- (5854679515581645 / 2 ^ 53)) (- (5520178457060422 / 2 ^ 49)), vel = V3 (8832285531296675 / 2 ^ 52) (- (5854679515581645 / 2 ^ 53)) (- (5520178457060422 / 2 ^ 49)), grounded = False, coyoteTime = 0\<rparr>"
  by (rule applyPhysics_trace [OF clamp_steps])

lemma clamp_example_before:
  "beforeClamp \<lparr>pos = V3 0 0 0, vel = V3 11 0 (- 55), grounded = False, coyoteTime = 0\<rparr> (V3 0 0 0)
     = \<lparr>pos = V3 0 0 0, vel = V3 (5077808579860234 / 2 ^ 49) (- (5854679515581645 / 2 ^ 53)) (- (6347260724825292 / 2 ^ 47)), grounded = False, coyoteTime = 0\<rparr>"
  by (rule beforeClamp_trace [OF clamp_steps(1-6)])

lemma clamp_example_hBefore:
  "hSpeedOf (V3 (5077808579860234 / 2 ^ 49) (- (5854679515581645 / 2 ^ 53)) (- (6347260724825292 / 2 ^ 47))) = Fin (6472961258749049 / 2 ^ 47)"
  by (rule hSpeedOf_trace [OF clamp_steps(7-10) clamp_steps(17-19)])

lemma clamp_steps_after:
  shows "fl ((8832285531296675 / 2 ^ 52) * (8832285531296675 / 2 ^ 52)) = (8660768514174032 / 2 ^ 51)"
    and "fl ((- (5520178457060422 / 2 ^ 49)) * (- (5520178457060422 / 2 ^ 49))) = (6766225401698463 / 2 ^ 46)"
    and "fl ((8660768514174032 / 2 ^ 51) + (6766225401698463 / 2 ^ 46)) = (7036874417766402 / 2 ^ 46)"
    and "fl (sqrt (7036874417766402 / 2 ^ 46)) = (5629499534213121 / 2 ^ 49)"
    and "\<bar>(8660768514174032 / 2 ^ 51)\<bar> < (2::real) ^ 1024"
    and "\<bar>(6766225401698463 / 2 ^ 46)\<bar> < (2::real) ^ 1024"
    and "\<bar>(7036874417766402 / 2 ^ 46)\<bar> < (2::real) ^ 1024"
proof -
  show "fl ((8832285531296675 / 2 ^ 52) * (8832285531296675 / 2 ^ 52)) = (8660768514174032 / 2 ^ 51)"
    using fl_eqI [where k = 51 and m = "8660768514174032" and x = "(8832285531296675 / 2 ^ 52) * (8832285531296675 / 2 ^ 52)"] by (simp)
  show "fl ((- (5520178457060422 / 2 ^ 49)) * (- (5520178457060422 / 2 ^ 49))) = (6766225401698463 / 2 ^ 46)"
    using fl_eqI [where k = 46 and m = "6766225401698463" and x = "(- (5520178457060422 / 2 ^ 49)) * (- (5520178457060422 / 2 ^ 49))"] by (simp)
  show "fl ((8660768514174032 / 2 ^ 51) + (6766225401698463 / 2 ^ 46)) = (7036874417766402 / 2 ^ 46)"
    using fl_eqI [where k = 46 and m = "7036874417766402" and x = "(8660768514174032 / 2 ^ 51) + (6766225401698463 / 2 ^ 46)"] by (simp)
  show "fl (sqrt (7036874417766402 / 2 ^ 46)) = (5629499534213121 / 2 ^ 49)"
    using fl_sqrt_eqI [where k = 49 and m = "5629499534213121" and s = "(7036874417766402 / 2 ^ 46)"] by simp
  show "\<bar>(8660768514174032 / 2 ^ 51)\<bar> < (2::real) ^ 1024"
    by simp
  show "\<bar>(6766225401698463 / 2 ^ 46)\<bar> < (2::real) ^ 1024"
    by simp
  show "\<bar>(7036874417766402 / 2 ^ 46)\<bar> < (2::real) ^ 1024"
    by simp
qed

lemma clamp_example_hSpeed:
  "hSpeedOf (V3 (8832285531296675 / 2 ^ 52) (- (5854679515581645 / 2 ^ 53)) (- (5520178457060422 / 2 ^ 49))) = Fin (5629499534213121 / 2 ^ 49)"
  by (rule hSpeedOf_trace [OF clamp_steps_after])


text \<open>
  Claim C8, in the form the code satisfies.  \<open>applyPhysics\<close> runs the five phases in the
  order of the specification, each operation rounded to the nearest double: it adds the
  input force to the velocity, multiplies the horizontal components by the friction,
  subtracts the gravity from the vertical component, multiplies the horizontal components
  by the ratio \<open>maxSpeed / hSpeed\<close> when the horizontal speed that it computed exceeds
  \<open>maxSpeed\<close>, and adds the resulting velocity to the position.  The clamp leaves the
  vertical component alone.  When none of the six sums of the call leaves the range of the
  doubles, the exact horizontal speed afterwards is at most \<open>maxSpeed\<close> times
  \<open>1 + 2 powr (- 50)\<close>; it is at least \<open>maxSpeed\<close> times \<open>1 - 2 powr (- 50)\<close> when the
  clamp applied to a finite computed speed, and 0 when the squares overflowed.  The new
  position is the rounded sum of the old position and the new velocity.
\<close>

theorem applyPhysics_order_and_postcondition:
  assumes "finiteStep p f"
  shows "applyPhysics p f = integratePosition (clampHorizontal (beforeClamp p f))
   \<and> vel (applyPhysics p f) =
       (case hSpeedOf (vel (beforeClamp p f)) of
          Fin h \<Rightarrow> if maxSpeed < h
                   then (vel (beforeClamp p f))
                          \<lparr>xc := fl (xc (vel (beforeClamp p f)) * fl (maxSpeed / h)),
                           zc := fl (zc (vel (beforeClamp p f)) * fl (maxSpeed / h))\<rparr>
                   else vel (beforeClamp p f)
        | PInf \<Rightarrow> (vel (beforeClamp p f))\<lparr>xc := 0, zc := 0\<rparr>)
   \<and> speedXZ (vel (applyPhysics p f)) \<le> maxSpeed * (1 + 1 / 2 ^ 50)
   \<and> (case hSpeedOf (vel (beforeClamp p f)) of
          Fin h \<Rightarrow> maxSpeed < h \<longrightarrow> maxSpeed * (1 - 1 / 2 ^ 50) \<le> speedXZ (vel (applyPhysics p f))
        | PInf \<Rightarrow> speedXZ (vel (applyPhysics p f)) = 0)
   \<and> yc (vel (applyPhysics p f)) = fl (fl (yc (vel p) + yc f) - gravity)
   \<and> pos (applyPhysics p f) = addV (pos p) (vel (applyPhysics p f))
   \<and> grounded (applyPhysics p f) = grounded p
   \<and> coyoteTime (applyPhysics p f) = coyoteTime p"
proof -
  let ?q = "beforeClamp p f"
  have r: "applyPhysics p f = integratePosition (clampHorizontal ?q)"
    by (rule applyPhysics_phases)
  have v: "vel (applyPhysics p f) = vel (clampHorizontal ?q)"
    by (simp add: r integratePosition_def)
  have c: "vel (applyPhysics p f) =
       (case hSpeedOf (vel ?q) of
          Fin h \<Rightarrow> if maxSpeed < h
                   then (vel ?q)\<lparr>xc := fl (xc (vel ?q) * fl (maxSpeed / h)),
                                 zc := fl (zc (vel ?q) * fl (maxSpeed / h))\<rparr>
                   else vel ?q
        | PInf \<Rightarrow> (vel ?q)\<lparr>xc := 0, zc := 0\<rparr>)"
    unfolding v by (rule clampHorizontal_vel)
  have u: "speedXZ (vel (applyPhysics p f)) \<le> maxSpeed * (1 + 1 / 2 ^ 50)"
    unfolding v by (rule clampHorizontal_speed(1))
  have l: "(case hSpeedOf (vel ?q) of
          Fin h \<Rightarrow> maxSpeed < h \<longrightarrow> maxSpeed * (1 - 1 / 2 ^ 50) \<le> speedXZ (vel (applyPhysics p f))
        | PInf \<Rightarrow> speedXZ (vel (applyPhysics p f)) = 0)"
    unfolding v by (rule clampHorizontal_speed(2))
  have y: "yc (vel (applyPhysics p f)) = fl (fl (yc (vel p) + yc f) - gravity)"
    by (simp add: v clampHorizontal_def applyGravity_def applyFriction_def addInputForce_def
        addV_def)
  have q: "pos (applyPhysics p f) = addV (pos p) (vel (applyPhysics p f))"
    by (simp add: r integratePosition_def clampHorizontal_def applyGravity_def
        applyFriction_def addInputForce_def)
  have g: "grounded (applyPhysics p f) = grounded p" "coyoteTime (applyPhysics p f) = coyoteTime p"
    by (simp_all add: r integratePosition_def clampHorizontal_def applyGravity_def
        applyFriction_def addInputForce_def)
  from r c u l y q g show ?thesis by (simp only: simp_thms)
qed

text \<open>
  Claim C8 as stated fails: from the velocity \<open>(11, 0, - 55)\<close> the call leaves a horizontal
  velocity whose exact length is above \<open>maxSpeed\<close>, and whose length as the code itself
  would compute it is \<open>10 + 2 powr (- 49)\<close>, above \<open>maxSpeed\<close> too.
\<close>

theorem clamp_above_maxSpeed_counterexample:
  "maxSpeed < speedXZ (vel (applyPhysics \<lparr>pos = V3 0 0 0, vel = V3 11 0 (- 55), grounded = False, coyoteTime = 0\<rparr> (V3 0 0 0)))
   \<and> hSpeedOf (vel (applyPhysics \<lparr>pos = V3 0 0 0, vel = V3 11 0 (- 55), grounded = False, coyoteTime = 0\<rparr> (V3 0 0 0))) = Fin (5629499534213121 / 2 ^ 49)
   \<and> exceeds (hSpeedOf (vel (applyPhysics \<lparr>pos = V3 0 0 0, vel = V3 11 0 (- 55), grounded = False, coyoteTime = 0\<rparr> (V3 0 0 0)))) maxSpeed
   \<and> \<not> speedXZ (vel (applyPhysics \<lparr>pos = V3 0 0 0, vel = V3 11 0 (- 55), grounded = False, coyoteTime = 0\<rparr> (V3 0 0 0))) \<le> maxSpeed"
proof -
  have "(10::real)\<^sup>2 < (8832285531296675 / 2 ^ 52)\<^sup>2 + (- (5520178457060422 / 2 ^ 49))\<^sup>2"
    by (simp add: power2_eq_square)
  then have "(10::real) < sqrt ((8832285531296675 / 2 ^ 52)\<^sup>2 + (- (5520178457060422 / 2 ^ 49))\<^sup>2)"
    by (rule real_less_rsqrt)
  then have a: "maxSpeed < speedXZ (vel (applyPhysics \<lparr>pos = V3 0 0 0, vel = V3 11 0 (- 55), grounded = False, coyoteTime = 0\<rparr> (V3 0 0 0)))"
    unfolding clamp_example by (simp only: speedXZ_def maxSpeed_def vec3.simps PlayerState.simps)
  have b: "hSpeedOf (vel (applyPhysics \<lparr>pos = V3 0 0 0, vel = V3 11 0 (- 55), grounded = False, coyoteTime = 0\<rparr> (V3 0 0 0))) = Fin (5629499534213121 / 2 ^ 49)"
    unfolding clamp_example by (simp only: PlayerState.simps clamp_example_hSpeed)
  have c: "maxSpeed < (5629499534213121 / 2 ^ 49)" by (simp add: maxSpeed_def)
  from a b c show ?thesis by simp
qed

text \<open>
  The same call: its sums are finite, the clamp applies to the computed speed of about 45.99,
  and the exact speed afterwards lies between the two bounds.
\<close>

theorem applyPhysics_order_and_postcondition_witness:
  "finiteStep \<lparr>pos = V3 0 0 0, vel = V3 11 0 (- 55), grounded = False, coyoteTime = 0\<rparr> (V3 0 0 0)
   \<and> hSpeedOf (vel (beforeClamp \<lparr>pos = V3 0 0 0, vel = V3 11 0 (- 55), grounded = False, coyoteTime = 0\<rparr> (V3 0 0 0))) = Fin (6472961258749049 / 2 ^ 47)
   \<and> maxSpeed < (6472961258749049 / 2 ^ 47)
   \<and> applyPhysics \<lparr>pos = V3 0 0 0, vel = V3 11 0 (- 55), grounded = False, coyoteTime = 0\<rparr> (V3 0 0 0) = \<lparr>pos = V3 (8832285531296675 / 2 ^ 52) (- (5854679515581645 / 2 ^ 53)) (- (5520178457060422 / 2 ^ 49)), vel = V3 (8832285531296675 / 2 ^ 52) (- (5854679515581645 / 2 ^ 53)) (- (5520178457060422 / 2 ^ 49)), grounded = False, coyoteTime = 0\<rparr>
   \<and> maxSpeed * (1 - 1 / 2 ^ 50) \<le> speedXZ (vel (applyPhysics \<lparr>pos = V3 0 0 0, vel = V3 11 0 (- 55), grounded = False, coyoteTime = 0\<rparr> (V3 0 0 0)))
   \<and> speedXZ (vel (applyPhysics \<lparr>pos = V3 0 0 0, vel = V3 11 0 (- 55), grounded = False, coyoteTime = 0\<rparr> (V3 0 0 0))) \<le> maxSpeed * (1 + 1 / 2 ^ 50)
   \<and> pos (applyPhysics \<lparr>pos = V3 0 0 0, vel = V3 11 0 (- 55), grounded = False, coyoteTime = 0\<rparr> (V3 0 0 0)) = addV (pos \<lparr>pos = V3 0 0 0, vel = V3 11 0 (- 55), grounded = False, coyoteTime = 0\<rparr>) (vel (applyPhysics \<lparr>pos = V3 0 0 0, vel = V3 11 0 (- 55), grounded = False, coyoteTime = 0\<rparr> (V3 0 0 0)))"
proof -
  have f: "finiteStep \<lparr>pos = V3 0 0 0, vel = V3 11 0 (- 55), grounded = False, coyoteTime = 0\<rparr> (V3 0 0 0)"
    unfolding finiteStep_def clamp_example by (intro conjI no_overflow) simp_all
  have h: "hSpeedOf (vel (beforeClamp \<lparr>pos = V3 0 0 0, vel = V3 11 0 (- 55), grounded = False, coyoteTime = 0\<rparr> (V3 0 0 0))) = Fin (6472961258749049 / 2 ^ 47)"
    unfolding clamp_example_before by (simp only: PlayerState.simps clamp_example_hBefore)
  have m: "maxSpeed < (6472961258749049 / 2 ^ 47)" by (simp add: maxSpeed_def)
  have e: "applyPhysics \<lparr>pos = V3 0 0 0, vel = V3 11 0 (- 55), grounded = False, coyoteTime = 0\<rparr> (V3 0 0 0) = \<lparr>pos = V3 (8832285531296675 / 2 ^ 52) (- (5854679515581645 / 2 ^ 53)) (- (5520178457060422 / 2 ^ 49)), vel = V3 (8832285531296675 / 2 ^ 52) (- (5854679515581645 / 2 ^ 53)) (- (5520178457060422 / 2 ^ 49)), grounded = False, coyoteTime = 0\<rparr>"
    by (rule clamp_example)
  note T = applyPhysics_order_and_postcondition [OF f]
  have u: "speedXZ (vel (applyPhysics \<lparr>pos = V3 0 0 0, vel = V3 11 0 (- 55), grounded = False, coyoteTime = 0\<rparr> (V3 0 0 0))) \<le> maxSpeed * (1 + 1 / 2 ^ 50)"
    by (rule T [THEN conjunct2, THEN conjunct2, THEN conjunct1])
  have l: "maxSpeed * (1 - 1 / 2 ^ 50) \<le> speedXZ (vel (applyPhysics \<lparr>pos = V3 0 0 0, vel = V3 11 0 (- 55), grounded = False, coyoteTime = 0\<rparr> (V3 0 0 0)))"
    using T [THEN conjunct2, THEN conjunct2, THEN conjunct2, THEN conjunct1, unfolded h ext.case] m
    by (rule mp)
  have q: "pos (applyPhysics \<lparr>pos = V3 0 0 0, vel = V3 11 0 (- 55), grounded = False, coyoteTime = 0\<rparr> (V3 0 0 0)) = addV (pos \<lparr>pos = V3 0 0 0, vel = V3 11 0 (- 55), grounded = False, coyoteTime = 0\<rparr>) (vel (applyPhysics \<lparr>pos = V3 0 0 0, vel = V3 11 0 (- 55), grounded = False, coyoteTime = 0\<rparr> (V3 0 0 0)))"
    by (rule T [THEN conjunct2, THEN conjunct2, THEN conjunct2, THEN conjunct2, THEN conjunct2,
          THEN conjunct1])
  show ?thesis by (intro conjI; fact)
qed
section \<open>The frame loop\<close>

lemma accumulator_resolveOnce: "accumulator (resolveOnce eng) = accumulator eng"
  by (simp add: resolveOnce_def resolveCollisions_def resetCallback_def resetPlayer_def
      resetInputs_def onStatusUpdate_def Let_def split: loopResult.splits prod.splits)

lemma accumulator_fixedUpdate: "accumulator (fixedUpdate camDir eng) = accumulator eng"
  by (simp add: fixedUpdate_def physicsStep_def jumpStep_def fallCheck_def gameLogic_def Let_def
      accumulator_resolveOnce resetPlayer_def resetInputs_def onStatusUpdate_def
      onScoreUpdate_def)

lemma lastTime_resolveOnce: "lastTime (resolveOnce eng) = lastTime eng"
  by (simp add: resolveOnce_def resolveCollisions_def resetCallback_def resetPlayer_def
      resetInputs_def onStatusUpdate_def Let_def split: loopResult.splits prod.splits)

lemma lastTime_fixedUpdate: "lastTime (fixedUpdate camDir eng) = lastTime eng"
  by (simp add: fixedUpdate_def physicsStep_def jumpStep_def fallCheck_def gameLogic_def Let_def
      lastTime_resolveOnce resetPlayer_def resetInputs_def onStatusUpdate_def
      onScoreUpdate_def)

lemma consume_stop: "accumulator eng < TIME_STEP \<Longrightarrow> consume c eng n = Some (eng, n)"
  by (subst consume.simps) simp

lemma consume_step:
  "TIME_STEP \<le> accumulator eng \<Longrightarrow>
     consume c eng n =
       consume c ((fixedUpdate c eng)\<lparr>accumulator := fl (accumulator eng - TIME_STEP)\<rparr>) (Suc n)"
  by (subst consume.simps) (simp add: accumulator_fixedUpdate)

text \<open>The rounds of the loop: what they leave, how they are counted, and how they compare.\<close>

lemma rounds_stepI:
  "TIME_STEP \<le> a \<Longrightarrow> fl (a - TIME_STEP) = a' \<Longrightarrow> rounds a' k b \<Longrightarrow> rounds a (Suc k) b"
  by (auto intro: rounds.step)

lemma rounds_end: "rounds a k b \<Longrightarrow> b < TIME_STEP"
  by (induction rule: rounds.induct) simp_all

lemma rounds_mono:
  "rounds a' k' b' \<Longrightarrow> a \<le> a' \<Longrightarrow> \<exists>k b. rounds a k b \<and> k \<le> k'"
proof (induction arbitrary: a rule: rounds.induct)
  case (stop a')
  then have "rounds a 0 a" by (intro rounds.stop) simp
  then show ?case by blast
next
  case (step a' k' b')
  show ?case
  proof (cases "a < TIME_STEP")
    case True
    then have "rounds a 0 a" by (rule rounds.stop)
    then show ?thesis by blast
  next
    case False
    then have ge: "TIME_STEP \<le> a" by simp
    have "fl (a - TIME_STEP) \<le> fl (a' - TIME_STEP)" using step.prems by (intro fl_mono) simp
    from step.IH [OF this] obtain k b where kb: "rounds (fl (a - TIME_STEP)) k b" "k \<le> k'"
      by blast
    from rounds.step [OF ge kb(1)] kb(2) show ?thesis by blast
  qed
qed

lemma rounds_consume:
  "rounds a k b \<Longrightarrow> accumulator eng = a \<Longrightarrow>
     \<exists>e. consume c eng n = Some (e, n + k) \<and> accumulator e = b \<and> lastTime e = lastTime eng"
proof (induction arbitrary: eng n rule: rounds.induct)
  case (stop a)
  then show ?case by (simp add: consume_stop)
next
  case (step a k b)
  let ?e = "(fixedUpdate c eng)\<lparr>accumulator := fl (accumulator eng - TIME_STEP)\<rparr>"
  have "accumulator ?e = fl (a - TIME_STEP)" using step.prems by simp
  from step.IH [OF this, of "Suc n"] obtain e where
    e: "consume c ?e (Suc n) = Some (e, Suc n + k)" "accumulator e = b" "lastTime e = lastTime ?e"
    by blast
  have "consume c eng n = consume c ?e (Suc n)"
    using step.hyps(1) step.prems by (intro consume_step) simp
  with e show ?case by (simp add: lastTime_fixedUpdate)
qed

text \<open>
  The doubles of the loop: \<open>TIME_STEP\<close>, the cap \<open>0.1\<close>, and the rounds from the largest
  accumulator that the cap admits.
\<close>

lemma TIME_STEP_val: "TIME_STEP = (4803839602528529 / 2 ^ 58)"
  unfolding TIME_STEP_def using fl_eqI [where k = 58 and m = "4803839602528529" and x = "1 / 60"] by simp

lemma tenth_val: "fl 0.1 = (7205759403792794 / 2 ^ 56)"
  using fl_eqI [where k = 56 and m = "7205759403792794" and x = "0.1"] by simp

lemma bound_val: "fl (TIME_STEP + fl 0.1) = (8406719304424926 / 2 ^ 56)"
  using fl_eqI [where k = 56 and m = "8406719304424926" and x = "TIME_STEP + fl 0.1"] by (simp add: TIME_STEP_val tenth_val)

lemma bound_rounds: "rounds (8406719304424926 / 2 ^ 56) 7 (6755399441055744 / 2 ^ 108)"
proof -
  have g0: "TIME_STEP \<le> (8406719304424926 / 2 ^ 56)" by (simp add: TIME_STEP_val)
  have f0: "fl ((8406719304424926 / 2 ^ 56) - TIME_STEP) = (7205759403792794 / 2 ^ 56)"
    using fl_eqI [where k = 56 and m = "7205759403792794" and x = "(8406719304424926 / 2 ^ 56) - TIME_STEP"] by (simp add: TIME_STEP_val)
  have g1: "TIME_STEP \<le> (7205759403792794 / 2 ^ 56)" by (simp add: TIME_STEP_val)
  have f1: "fl ((7205759403792794 / 2 ^ 56) - TIME_STEP) = (6004799503160662 / 2 ^ 56)"
    using fl_eqI [where k = 56 and m = "6004799503160662" and x = "(7205759403792794 / 2 ^ 56) - TIME_STEP"] by (simp add: TIME_STEP_val)
  have g2: "TIME_STEP \<le> (6004799503160662 / 2 ^ 56)" by (simp add: TIME_STEP_val)
  have f2: "fl ((6004799503160662 / 2 ^ 56) - TIME_STEP) = (4803839602528530 / 2 ^ 56)"
    using fl_eqI [where k = 56 and m = "4803839602528530" and x = "(6004799503160662 / 2 ^ 56) - TIME_STEP"] by (simp add: TIME_STEP_val)
  have g3: "TIME_STEP \<le> (4803839602528530 / 2 ^ 56)" by (simp add: TIME_STEP_val)
  have f3: "fl ((4803839602528530 / 2 ^ 56) - TIME_STEP) = (7205759403792796 / 2 ^ 57)"
    using fl_eqI [where k = 57 and m = "7205759403792796" and x = "(4803839602528530 / 2 ^ 56) - TIME_STEP"] by (simp add: TIME_STEP_val)
  have g4: "TIME_STEP \<le> (7205759403792796 / 2 ^ 57)" by (simp add: TIME_STEP_val)
  have f4: "fl ((7205759403792796 / 2 ^ 57) - TIME_STEP) = (4803839602528532 / 2 ^ 57)"
    using fl_eqI [where k = 57 and m = "4803839602528532" and x = "(7205759403792796 / 2 ^ 57) - TIME_STEP"] by (simp add: TIME_STEP_val)
  have g5: "TIME_STEP \<le> (4803839602528532 / 2 ^ 57)" by (simp add: TIME_STEP_val)
  have f5: "fl ((4803839602528532 / 2 ^ 57) - TIME_STEP) = (4803839602528535 / 2 ^ 58)"
    using fl_eqI [where k = 58 and m = "4803839602528535" and x = "(4803839602528532 / 2 ^ 57) - TIME_STEP"] by (simp add: TIME_STEP_val)
  have g6: "TIME_STEP \<le> (4803839602528535 / 2 ^ 58)" by (simp add: TIME_STEP_val)
  have f6: "fl ((4803839602528535 / 2 ^ 58) - TIME_STEP) = (6755399441055744 / 2 ^ 108)"
    using fl_eqI [where k = 108 and m = "6755399441055744" and x = "(4803839602528535 / 2 ^ 58) - TIME_STEP"] by (simp add: TIME_STEP_val)
  have l: "(6755399441055744 / 2 ^ 108) < TIME_STEP" by (simp add: TIME_STEP_val)
  have "rounds (8406719304424926 / 2 ^ 56) (Suc (Suc (Suc (Suc (Suc (Suc (Suc (0)))))))) (6755399441055744 / 2 ^ 108)"
    by (rule rounds_stepI [OF g0 f0 rounds_stepI [OF g1 f1 rounds_stepI [OF g2 f2 rounds_stepI [OF g3 f3 rounds_stepI [OF g4 f4 rounds_stepI [OF g5 f5 rounds_stepI [OF g6 f6 rounds.stop [OF l]]]]]]]])
  then show ?thesis by (simp add: eval_nat_numeral)
qed

lemma sec1: "fl (1 / 1000) = (4611686018427388 / 2 ^ 62)"
  using fl_eqI [where k = 62 and m = "4611686018427388" and x = "1 / 1000"] by (simp)

lemma sec2: "fl (51 / 1000) = (7349874591868649 / 2 ^ 57)"
  using fl_eqI [where k = 57 and m = "7349874591868649" and x = "51 / 1000"] by (simp)

lemma sec3: "fl (5051 / 1000) = (5686920429462094 / 2 ^ 50)"
  using fl_eqI [where k = 50 and m = "5686920429462094" and x = "5051 / 1000"] by (simp)

lemma delta2: "fl ((7349874591868649 / 2 ^ 57) - (4611686018427388 / 2 ^ 62)) = (7205759403792793 / 2 ^ 57)"
  using fl_eqI [where k = 57 and m = "7205759403792793" and x = "(7349874591868649 / 2 ^ 57) - (4611686018427388 / 2 ^ 62)"] by (simp)

lemma delta3: "fl ((5686920429462094 / 2 ^ 50) - (7349874591868649 / 2 ^ 57)) = 5"
  using fl_eqI [where k = 50 and m = "5629499534213120" and x = "(5686920429462094 / 2 ^ 50) - (7349874591868649 / 2 ^ 57)"] by (simp)

lemma acc2: "fl (0 + (7205759403792793 / 2 ^ 57)) = (7205759403792793 / 2 ^ 57)"
  using fl_eqI [where k = 57 and m = "7205759403792793" and x = "0 + (7205759403792793 / 2 ^ 57)"] by (simp)

lemma second_rounds: "rounds (7205759403792793 / 2 ^ 57) 2 (4803839602528527 / 2 ^ 58)"
proof -
  have g0: "TIME_STEP \<le> (7205759403792793 / 2 ^ 57)" by (simp add: TIME_STEP_val)
  have f0: "fl ((7205759403792793 / 2 ^ 57) - TIME_STEP) = (4803839602528528 / 2 ^ 57)"
    using fl_eqI [where k = 57 and m = "4803839602528528" and x = "(7205759403792793 / 2 ^ 57) - TIME_STEP"] by (simp add: TIME_STEP_val)
  have g1: "TIME_STEP \<le> (4803839602528528 / 2 ^ 57)" by (simp add: TIME_STEP_val)
  have f1: "fl ((4803839602528528 / 2 ^ 57) - TIME_STEP) = (4803839602528527 / 2 ^ 58)"
    using fl_eqI [where k = 58 and m = "4803839602528527" and x = "(4803839602528528 / 2 ^ 57) - TIME_STEP"] by (simp add: TIME_STEP_val)
  have l: "(4803839602528527 / 2 ^ 58) < TIME_STEP" by (simp add: TIME_STEP_val)
  have "rounds (7205759403792793 / 2 ^ 57) (Suc (Suc (0))) (4803839602528527 / 2 ^ 58)"
    by (rule rounds_stepI [OF g0 f0 rounds_stepI [OF g1 f1 rounds.stop [OF l]]])
  then show ?thesis by (simp add: eval_nat_numeral)
qed

lemma acc3: "fl ((4803839602528527 / 2 ^ 58) + (7205759403792794 / 2 ^ 56)) = (8406719304424926 / 2 ^ 56)"
  using fl_eqI [where k = 56 and m = "8406719304424926" and x = "(4803839602528527 / 2 ^ 58) + (7205759403792794 / 2 ^ 56)"] by (simp)

lemma third_rounds: "rounds (8406719304424926 / 2 ^ 56) 7 (6755399441055744 / 2 ^ 108)"
proof -
  have g0: "TIME_STEP \<le> (8406719304424926 / 2 ^ 56)" by (simp add: TIME_STEP_val)
  have f0: "fl ((8406719304424926 / 2 ^ 56) - TIME_STEP) = (7205759403792794 / 2 ^ 56)"
    using fl_eqI [where k = 56 and m = "7205759403792794" and x = "(8406719304424926 / 2 ^ 56) - TIME_STEP"] by (simp add: TIME_STEP_val)
  have g1: "TIME_STEP \<le> (7205759403792794 / 2 ^ 56)" by (simp add: TIME_STEP_val)
  have f1: "fl ((7205759403792794 / 2 ^ 56) - TIME_STEP) = (6004799503160662 / 2 ^ 56)"
    using fl_eqI [where k = 56 and m = "6004799503160662" and x = "(7205759403792794 / 2 ^ 56) - TIME_STEP"] by (simp add: TIME_STEP_val)
  have g2: "TIME_STEP \<le> (6004799503160662 / 2 ^ 56)" by (simp add: TIME_STEP_val)
  have f2: "fl ((6004799503160662 / 2 ^ 56) - TIME_STEP) = (4803839602528530 / 2 ^ 56)"
    using fl_eqI [where k = 56 and m = "4803839602528530" and x = "(6004799503160662 / 2 ^ 56) - TIME_STEP"] by (simp add: TIME_STEP_val)
  have g3: "TIME_STEP \<le> (4803839602528530 / 2 ^ 56)" by (simp add: TIME_STEP_val)
  have f3: "fl ((4803839602528530 / 2 ^ 56) - TIME_STEP) = (7205759403792796 / 2 ^ 57)"
    using fl_eqI [where k = 57 and m = "7205759403792796" and x = "(4803839602528530 / 2 ^ 56) - TIME_STEP"] by (simp add: TIME_STEP_val)
  have g4: "TIME_STEP \<le> (7205759403792796 / 2 ^ 57)" by (simp add: TIME_STEP_val)
  have f4: "fl ((7205759403792796 / 2 ^ 57) - TIME_STEP) = (4803839602528532 / 2 ^ 57)"
    using fl_eqI [where k = 57 and m = "4803839602528532" and x = "(7205759403792796 / 2 ^ 57) - TIME_STEP"] by (simp add: TIME_STEP_val)
  have g5: "TIME_STEP \<le> (4803839602528532 / 2 ^ 57)" by (simp add: TIME_STEP_val)
  have f5: "fl ((4803839602528532 / 2 ^ 57) - TIME_STEP) = (4803839602528535 / 2 ^ 58)"
    using fl_eqI [where k = 58 and m = "4803839602528535" and x = "(4803839602528532 / 2 ^ 57) - TIME_STEP"] by (simp add: TIME_STEP_val)
  have g6: "TIME_STEP \<le> (4803839602528535 / 2 ^ 58)" by (simp add: TIME_STEP_val)
  have f6: "fl ((4803839602528535 / 2 ^ 58) - TIME_STEP) = (6755399441055744 / 2 ^ 108)"
    using fl_eqI [where k = 108 and m = "6755399441055744" and x = "(4803839602528535 / 2 ^ 58) - TIME_STEP"] by (simp add: TIME_STEP_val)
  have l: "(6755399441055744 / 2 ^ 108) < TIME_STEP" by (simp add: TIME_STEP_val)
  have "rounds (8406719304424926 / 2 ^ 56) (Suc (Suc (Suc (Suc (Suc (Suc (Suc (0)))))))) (6755399441055744 / 2 ^ 108)"
    by (rule rounds_stepI [OF g0 f0 rounds_stepI [OF g1 f1 rounds_stepI [OF g2 f2 rounds_stepI [OF g3 f3 rounds_stepI [OF g4 f4 rounds_stepI [OF g5 f5 rounds_stepI [OF g6 f6 rounds.stop [OF l]]]]]]]])
  then show ?thesis by (simp add: eval_nat_numeral)
qed

lemma acc_stalled: "fl (0 + (7205759403792794 / 2 ^ 56)) = (7205759403792794 / 2 ^ 56)"
  using fl_eqI [where k = 56 and m = "7205759403792794" and x = "0 + (7205759403792794 / 2 ^ 56)"] by (simp)

lemma sec_stalled: "fl (6000 / 1000) = 6"
  using fl_eqI [where k = 50 and m = "6755399441055744" and x = "6000 / 1000"] by (simp)

lemma delta_stalled: "fl (6 - 1) = 5"
  using fl_eqI [where k = 50 and m = "5629499534213120" and x = "6 - 1"] by (simp)

lemma stalled_rounds: "rounds (7205759403792794 / 2 ^ 56) 6 (6755399441055744 / 2 ^ 108)"
proof -
  have g0: "TIME_STEP \<le> (7205759403792794 / 2 ^ 56)" by (simp add: TIME_STEP_val)
  have f0: "fl ((7205759403792794 / 2 ^ 56) - TIME_STEP) = (6004799503160662 / 2 ^ 56)"
    using fl_eqI [where k = 56 and m = "6004799503160662" and x = "(7205759403792794 / 2 ^ 56) - TIME_STEP"] by (simp add: TIME_STEP_val)
  have g1: "TIME_STEP \<le> (6004799503160662 / 2 ^ 56)" by (simp add: TIME_STEP_val)
  have f1: "fl ((6004799503160662 / 2 ^ 56) - TIME_STEP) = (4803839602528530 / 2 ^ 56)"
    using fl_eqI [where k = 56 and m = "4803839602528530" and x = "(6004799503160662 / 2 ^ 56) - TIME_STEP"] by (simp add: TIME_STEP_val)
  have g2: "TIME_STEP \<le> (4803839602528530 / 2 ^ 56)" by (simp add: TIME_STEP_val)
  have f2: "fl ((4803839602528530 / 2 ^ 56) - TIME_STEP) = (7205759403792796 / 2 ^ 57)"
    using fl_eqI [where k = 57 and m = "7205759403792796" and x = "(4803839602528530 / 2 ^ 56) - TIME_STEP"] by (simp add: TIME_STEP_val)
  have g3: "TIME_STEP \<le> (7205759403792796 / 2 ^ 57)" by (simp add: TIME_STEP_val)
  have f3: "fl ((7205759403792796 / 2 ^ 57) - TIME_STEP) = (4803839602528532 / 2 ^ 57)"
    using fl_eqI [where k = 57 and m = "4803839602528532" and x = "(7205759403792796 / 2 ^ 57) - TIME_STEP"] by (simp add: TIME_STEP_val)
  have g4: "TIME_STEP \<le> (4803839602528532 / 2 ^ 57)" by (simp add: TIME_STEP_val)
  have f4: "fl ((4803839602528532 / 2 ^ 57) - TIME_STEP) = (4803839602528535 / 2 ^ 58)"
    using fl_eqI [where k = 58 and m = "4803839602528535" and x = "(4803839602528532 / 2 ^ 57) - TIME_STEP"] by (simp add: TIME_STEP_val)
  have g5: "TIME_STEP \<le> (4803839602528535 / 2 ^ 58)" by (simp add: TIME_STEP_val)
  have f5: "fl ((4803839602528535 / 2 ^ 58) - TIME_STEP) = (6755399441055744 / 2 ^ 108)"
    using fl_eqI [where k = 108 and m = "6755399441055744" and x = "(4803839602528535 / 2 ^ 58) - TIME_STEP"] by (simp add: TIME_STEP_val)
  have l: "(6755399441055744 / 2 ^ 108) < TIME_STEP" by (simp add: TIME_STEP_val)
  have "rounds (7205759403792794 / 2 ^ 56) (Suc (Suc (Suc (Suc (Suc (Suc (0))))))) (6755399441055744 / 2 ^ 108)"
    by (rule rounds_stepI [OF g0 f0 rounds_stepI [OF g1 f1 rounds_stepI [OF g2 f2 rounds_stepI [OF g3 f3 rounds_stepI [OF g4 f4 rounds_stepI [OF g5 f5 rounds.stop [OF l]]]]]]])
  then show ?thesis by (simp add: eval_nat_numeral)
qed

lemma quotient_val: "fl ((7205759403792794 / 2 ^ 56) / TIME_STEP) = 6"
  using fl_eqI [where k = 50 and m = "6755399441055744" and x = "(7205759403792794 / 2 ^ 56) / TIME_STEP"] by (simp add: TIME_STEP_val)


lemma animate_first:
  "lastTime eng = 0 \<Longrightarrow>
     animate t c eng = Some (eng\<lparr>lastTime := fl (t / 1000), renders := renders eng + 1\<rparr>, 0)"
  by (simp add: animate_def)

lemma animate_rounds:
  assumes "lastTime eng \<noteq> 0"
    and "rounds (fl (accumulator eng + min (fl (fl (t / 1000) - lastTime eng)) (fl 0.1))) k b"
  shows "\<exists>e. animate t c eng = Some (e, k) \<and> accumulator e = b \<and> lastTime e = fl (t / 1000)"
proof -
  let ?e2 = "eng\<lparr>lastTime := fl (t / 1000),
                 accumulator := fl (accumulator eng + min (fl (fl (t / 1000) - lastTime eng)) (fl 0.1))\<rparr>"
  from rounds_consume [OF assms(2), of ?e2 c 0] obtain e where
    e: "consume c ?e2 0 = Some (e, k)" "accumulator e = b" "lastTime e = fl (t / 1000)"
    by auto
  then show ?thesis using assms(1) by (simp add: animate_def Let_def)
qed

lemma animate_trace:
  assumes "lastTime eng = s0" "s0 \<noteq> 0" "accumulator eng = a" "fl (t / 1000) = s"
    and "fl (s - s0) = d" "fl 0.1 = D" "min d D = dm" "fl (a + dm) = a0" "rounds a0 k b"
  shows "\<exists>e. animate t c eng = Some (e, k) \<and> accumulator e = b \<and> lastTime e = s"
proof -
  have "lastTime eng \<noteq> 0" using assms(1,2) by simp
  moreover have "rounds (fl (accumulator eng + min (fl (fl (t / 1000) - lastTime eng)) (fl 0.1))) k b"
    using assms(9) by (simp only: assms(1-8))
  ultimately show ?thesis unfolding assms(4) [symmetric] by (rule animate_rounds)
qed

lemma animate_bound:
  assumes "accumulator eng < TIME_STEP"
  shows "\<exists>e n. animate t c eng = Some (e, n) \<and> n \<le> 7 \<and> accumulator e < TIME_STEP"
proof (cases "lastTime eng = 0")
  case True
  then show ?thesis using assms by (simp add: animate_first)
next
  case False
  let ?a = "accumulator eng + min (fl (fl (t / 1000) - lastTime eng)) (fl 0.1)"
  have "?a \<le> TIME_STEP + fl 0.1" using assms by simp
  then have "fl ?a \<le> (8406719304424926 / 2 ^ 56)" unfolding bound_val [symmetric] by (rule fl_mono)
  from rounds_mono [OF bound_rounds this] obtain k b where kb: "rounds (fl ?a) k b" "k \<le> 7"
    by blast
  from animate_rounds [OF False kb(1)] obtain e where
    "animate t c eng = Some (e, k)" "accumulator e = b" by blast
  with kb(2) rounds_end [OF kb(1)] show ?thesis by blast
qed

lemma frames_bound:
  "accumulator eng < TIME_STEP \<Longrightarrow>
     \<exists>ns. frames fs eng = Some ns \<and> list_all (\<lambda>n. n \<le> 7) ns"
proof (induction fs arbitrary: eng)
  case Nil
  show ?case by simp
next
  case (Cons f fs)
  from animate_bound [OF Cons.prems] obtain e n where
    e: "animate (fst f) (snd f) eng = Some (e, n)" "n \<le> 7" "accumulator e < TIME_STEP" by blast
  from Cons.IH [OF e(3)] obtain ns where "frames fs e = Some ns" "list_all (\<lambda>n. n \<le> 7) ns"
    by blast
  with e show ?case by simp
qed

lemma frames_first:
  "lastTime eng = 0 \<Longrightarrow> frames fs eng = Some ns \<Longrightarrow> list_all (\<lambda>n. n = 0) (take 1 ns)"
  by (cases fs) (auto simp add: animate_first)

text \<open>
  Claim C6, in the form the code satisfies.  A call of \<open>animate\<close> on an engine that has
  seen no frame yet (\<open>lastTime = 0\<close>) runs no fixed update: it stores the time and
  renders.  A call on an engine whose accumulator is below \<open>TIME_STEP\<close> returns, runs at
  most 7 fixed updates, however large the reported time is, and leaves the accumulator
  below \<open>TIME_STEP\<close> again; 7 is one more than \<open>\<lfloor>0.1 / TIME_STEP\<rfloor> = 6\<close>.  Hence every call
  in any sequence of calls on the constructed engine returns and runs at most 7 fixed
  updates, and the first runs none.
\<close>

theorem accumulator_clamp:
  "(lastTime eng = 0 \<longrightarrow>
      animate t c eng = Some (eng\<lparr>lastTime := fl (t / 1000), renders := renders eng + 1\<rparr>, 0))
   \<and> (accumulator eng < TIME_STEP \<longrightarrow>
      (\<exists>e n. animate t c eng = Some (e, n) \<and> n \<le> 7 \<and> accumulator e < TIME_STEP))
   \<and> nat \<lfloor>fl (fl 0.1 / TIME_STEP)\<rfloor> = 6
   \<and> (\<exists>ns. frames fs (constructed lv) = Some ns \<and> list_all (\<lambda>n. n \<le> 7) ns \<and>
          list_all (\<lambda>n. n = 0) (take 1 ns))"
proof (intro conjI impI)
  assume "lastTime eng = 0"
  then show "animate t c eng = Some (eng\<lparr>lastTime := fl (t / 1000), renders := renders eng + 1\<rparr>, 0)"
    by (rule animate_first)
next
  assume "accumulator eng < TIME_STEP"
  then show "\<exists>e n. animate t c eng = Some (e, n) \<and> n \<le> 7 \<and> accumulator e < TIME_STEP"
    by (rule animate_bound)
next
  show "nat \<lfloor>fl (fl 0.1 / TIME_STEP)\<rfloor> = 6"
    unfolding tenth_val quotient_val by simp
next
  have a: "accumulator (constructed lv) < TIME_STEP"
    by (simp add: constructed_def TIME_STEP_val)
  from frames_bound [OF a] obtain ns where
    ns: "frames fs (constructed lv) = Some ns" "list_all (\<lambda>n. n \<le> 7) ns" by blast
  have "lastTime (constructed lv) = 0" by (simp add: constructed_def)
  from frames_first [OF this ns(1)] ns
  show "\<exists>ns. frames fs (constructed lv) = Some ns \<and> list_all (\<lambda>n. n \<le> 7) ns \<and>
          list_all (\<lambda>n. n = 0) (take 1 ns)"
    by blast
qed

text \<open>
  Claim C6 as stated fails: with frames at 1 ms, 51 ms and 5051 ms the third call, whose
  reported delta is 5 seconds, runs 7 fixed updates, one more than
  \<open>\<lfloor>0.1 / TIME_STEP\<rfloor> = 6\<close>.  The second call leaves an accumulator just below
  \<open>TIME_STEP\<close>, and the rounded sum with the cap \<open>0.1\<close> is above 7 times \<open>TIME_STEP\<close>.
\<close>

theorem seven_ticks_counterexample:
  "frames [(1, V3 0 0 (- 1)), (51, V3 0 0 (- 1)), (5051, V3 0 0 (- 1))] (constructed ([], [], 4000))
     = Some [0, 2, 7]
   \<and> fl (fl (5051 / 1000) - fl (51 / 1000)) = 5
   \<and> nat \<lfloor>fl (fl 0.1 / TIME_STEP)\<rfloor> = 6
   \<and> \<not> (7::nat) \<le> 6"
proof -
  let ?c = "V3 0 0 (- 1)"
  let ?E0 = "constructed ([], [], 4000)"
  define E1 where "E1 = ?E0\<lparr>lastTime := fl (1 / 1000), renders := renders ?E0 + 1\<rparr>"
  have l0: "lastTime ?E0 = 0" by (simp add: constructed_def)
  have a1: "animate 1 ?c ?E0 = Some (E1, 0)" unfolding E1_def by (rule animate_first [OF l0])
  have h1: "lastTime E1 = (4611686018427388 / 2 ^ 62)" by (simp add: E1_def sec1)
  have h2: "(4611686018427388 / 2 ^ 62) \<noteq> (0::real)" by simp
  have h3: "accumulator E1 = 0" by (simp add: E1_def constructed_def)
  have m2: "min (7205759403792793 / 2 ^ 57) (7205759403792794 / 2 ^ 56) = ((7205759403792793 / 2 ^ 57)::real)" by simp
  from animate_trace [OF h1 h2 h3 sec2 delta2 tenth_val m2 acc2 second_rounds] obtain e2 where
    e2: "animate 51 ?c E1 = Some (e2, 2)" "accumulator e2 = (4803839602528527 / 2 ^ 58)" "lastTime e2 = (7349874591868649 / 2 ^ 57)"
    by blast
  have k2: "(7349874591868649 / 2 ^ 57) \<noteq> (0::real)" by simp
  have m3: "min 5 (7205759403792794 / 2 ^ 56) = ((7205759403792794 / 2 ^ 56)::real)" by simp
  from animate_trace [OF e2(3) k2 e2(2) sec3 delta3 tenth_val m3 acc3 third_rounds] obtain e3 where
    e3: "animate 5051 ?c e2 = Some (e3, 7)" by blast
  have f: "frames [(1, ?c), (51, ?c), (5051, ?c)] ?E0 = Some [0, 2, 7]"
    by (simp add: a1 e2(1) e3)
  have d: "fl (fl (5051 / 1000) - fl (51 / 1000)) = 5"
    by (simp only: sec2 sec3 delta3)
  have q: "nat \<lfloor>fl (fl 0.1 / TIME_STEP)\<rfloor> = 6"
    unfolding tenth_val quotient_val by simp
  from f d q show ?thesis by simp
qed

text \<open>
  The first frame of the constructed engine, and a frame 5 seconds after the last one of an
  engine with an empty accumulator: six fixed updates.
\<close>

theorem accumulator_clamp_witness:
  "lastTime (constructed ([], [], 4000)) = 0
   \<and> animate 16 (V3 0 0 (- 1)) (constructed ([], [], 4000))
       = Some ((constructed ([], [], 4000))\<lparr>lastTime := fl (16 / 1000), renders := 1\<rparr>, 0)
   \<and> accumulator stalledEngine < TIME_STEP
   \<and> fl (fl (6000 / 1000) - lastTime stalledEngine) = 5
   \<and> map_option snd (animate 6000 (V3 0 0 (- 1)) stalledEngine) = Some 6
   \<and> (case animate 6000 (V3 0 0 (- 1)) stalledEngine of
         None \<Rightarrow> False
       | Some r \<Rightarrow> snd r \<le> 7 \<and> accumulator (fst r) < TIME_STEP)"
proof -
  let ?c = "V3 0 0 (- 1)"
  have a: "lastTime (constructed ([], [], 4000)) = 0" by (simp add: constructed_def)
  have b: "accumulator stalledEngine < TIME_STEP"
    by (simp add: stalledEngine_def constructed_def TIME_STEP_val)
  have h1: "lastTime stalledEngine = 1" by (simp add: stalledEngine_def)
  have h2: "(1::real) \<noteq> 0" by simp
  have h3: "accumulator stalledEngine = 0" by (simp add: stalledEngine_def constructed_def)
  have d: "fl (fl (6000 / 1000) - lastTime stalledEngine) = 5"
    by (simp only: h1 sec_stalled delta_stalled)
  have m: "min 5 (7205759403792794 / 2 ^ 56) = ((7205759403792794 / 2 ^ 56)::real)" by simp
  from animate_trace [OF h1 h2 h3 sec_stalled delta_stalled tenth_val m acc_stalled stalled_rounds]
  obtain e where e: "animate 6000 ?c stalledEngine = Some (e, 6)"
    by blast
  have s: "map_option snd (animate 6000 ?c stalledEngine) = Some 6" by (simp add: e)
  from accumulator_clamp [of "constructed ([], [], 4000)" 16 ?c "[]" "([], [], 4000)"] a
  have f: "animate 16 ?c (constructed ([], [], 4000))
       = Some ((constructed ([], [], 4000))\<lparr>lastTime := fl (16 / 1000), renders := 1\<rparr>, 0)"
    by (simp add: constructed_def)
  from accumulator_clamp [of stalledEngine 6000 ?c "[]" "([], [], 4000)"] b
  have g: "case animate 6000 ?c stalledEngine of
         None \<Rightarrow> False
       | Some r \<Rightarrow> snd r \<le> 7 \<and> accumulator (fst r) < TIME_STEP"
    by auto
  show ?thesis by (intro conjI; fact)
qed
section \<open>Boxes, and contacts that the resolver passes over\<close>






lemma insideBox_distSq: "insideBox p box \<Longrightarrow> distSqOf p box = 0"
  by (simp add: insideBox_def distSqOf_def distVec_def clamp_def Let_def)


lemma resolveBlock_no_contact:
  "\<not> collides (pos pl) (collisionBox b bm) \<Longrightarrow> resolveBlock bm b pl g = Continue pl g"
  by (simp add: resolveBlock_def Let_def)

lemma resolveBlock_p0_no_contact:
  "\<not> collides (pos pl) (ownBox b) \<Longrightarrow> resolveBlock_p0 bm b pl g = Continue pl g"
  by (simp add: resolveBlock_p0_def Let_def)




lemma addBlock_blockAt:
  "addBlock x y z t lv =
     \<lparr>blocksL = blocksL lv @ [blockAt x y z t (length (blocksL lv))],
      blockMapL = mapSet (blockMapL lv) (x, y, z) (blockAt x y z t (length (blocksL lv)))\<rparr>"
  by (simp add: addBlock_def blockAt_def Let_def)

lemma blockAt_sel [simp]:
  "gx (blockAt x y z t n) = x" "gy (blockAt x y z t n) = y" "gz (blockAt x y z t n) = z"
  "typeB (blockAt x y z t n) = t" "idB (blockAt x y z t n) = n"
  "minB (blockAt x y z t n) = V3 (real_of_int x * 40 - 20) (real_of_int y * 40 - 20) (real_of_int z * 40 - 20)"
  "maxB (blockAt x y z t n) = V3 (real_of_int x * 40 + 20) (real_of_int y * 40 + 20) (real_of_int z * 40 + 20)"
  "center (blockAt x y z t n) = V3 (real_of_int x * 40) (real_of_int y * 40) (real_of_int z * 40)"
  by (simp_all add: blockAt_def blockSize_def)

lemma playerAt_sel [simp]:
  "pos (playerAt px py pz vy g c) = V3 px py pz" "vel (playerAt px py pz vy g c) = V3 0 vy 0"
  "grounded (playerAt px py pz vy g c) = g" "coyoteTime (playerAt px py pz vy g c) = c"
  by (simp_all add: playerAt_def)


section \<open>Calls without contact\<close>


lemma distSqOf_nonneg: "0 \<le> distSqOf p box"
  by (simp add: distSqOf_def Let_def)

lemma clear_not_collides: "playerRadius < distanceTo p box \<Longrightarrow> \<not> collides p box"
proof
  assume a: "playerRadius < distanceTo p box" and c: "collides p box"
  from c have "distSqOf p box < playerRadius\<^sup>2" by (simp add: collides_def power2_eq_square)
  then have "sqrt (distSqOf p box) < playerRadius"
    by (intro real_less_lsqrt) (simp_all add: playerRadius_def)
  with a show False by (simp add: distanceTo_def)
qed

lemma resolveLoop_clear:
  "(\<forall>b \<in> set bs. \<not> collides (pos pl) (collisionBox b bm)) \<Longrightarrow>
     resolveLoop bm bs pl g = Finished pl g"
  by (induction bs) (simp_all add: resolveBlock_no_contact)

lemma resolveLoop_p0_clear:
  "(\<forall>b \<in> set bs. \<not> collides (pos pl) (ownBox b)) \<Longrightarrow>
     resolveLoop_p0 bm bs pl g = Finished pl g"
  by (induction bs) (simp_all add: resolveBlock_p0_no_contact)

lemma stateUpdate_pos_vel [simp]:
  "pos (stateUpdate g pl) = pos pl" "vel (stateUpdate g pl) = vel pl"
  by (simp_all add: stateUpdate_def)




lemma sqrt_100: "sqrt 100 = 10"
  by (rule real_sqrt_unique) simp_all



lemma oneBlock_box: "collisionBox (blockAt 0 0 0 Standard 0) oneBlockMap = ownBox (blockAt 0 0 0 Standard 0)"
  by (simp add: collisionBox_def mergeAllConnectedOnLayer_def ownBox_def mapGet_def oneBlockMap_def)

lemma far_above_distance:
  "distanceTo (V3 0 150 0) (ownBox (blockAt 0 0 0 Standard 0)) = 130"
proof -
  have "distSqOf (V3 0 150 0) (ownBox (blockAt 0 0 0 Standard 0)) = 130\<^sup>2"
    by (simp add: distSqOf_def distVec_def clamp_def ownBox_def Let_def)
  then show ?thesis by (simp add: distanceTo_def)
qed








section \<open>The hazard ends the call\<close>


lemma resolveLoop_append:
  "resolveLoop bm (pre @ rest) pl g =
     (case resolveLoop bm pre pl g of
        HazardHit q \<Rightarrow> HazardHit q
      | Finished q g' \<Rightarrow> resolveLoop bm rest q g')"
  by (induction pre arbitrary: pl g) (simp_all split: blockResult.splits)

lemma resolveLoop_p0_append:
  "resolveLoop_p0 bm (pre @ rest) pl g =
     (case resolveLoop_p0 bm pre pl g of
        HazardHit q \<Rightarrow> HazardHit q
      | Finished q g' \<Rightarrow> resolveLoop_p0 bm rest q g')"
  by (induction pre arbitrary: pl g) (simp_all split: blockResult.splits)

lemma spike_box: "typeB b = Spike \<Longrightarrow> collisionBox b bm = ownBox b"
  by (simp add: collisionBox_def tryMergeWithNeighbor_def ownBox_def)

lemma pushOut_not_Reset: "pushOut pl g n pen \<noteq> Reset"
  by (simp add: pushOut_def Let_def)

lemma resolveBlock_Reset_iff:
  "resolveBlock bm b pl g = Reset \<longleftrightarrow>
     typeB b = Spike \<and> inRange (pos pl) b \<and> collides (pos pl) (ownBox b)"
proof (cases "typeB b")
  case Standard
  then show ?thesis by (simp add: resolveBlock_def Let_def pushOut_not_Reset)
next
  case Spike
  then show ?thesis by (simp add: resolveBlock_def Let_def spike_box)
qed

lemma resolveBlock_p0_Reset_iff:
  "resolveBlock_p0 bm b pl g = Reset \<longleftrightarrow>
     typeB b = Spike \<and> inRange (pos pl) b \<and> collides (pos pl) (ownBox b)"
  by (cases "typeB b") (simp_all add: resolveBlock_p0_def Let_def pushOut_not_Reset)

text \<open>
  Claim C3.  Let the loop of a resolver call have passed the blocks \<open>pre\<close> and reached
  a Spike block \<open>b\<close> that the player, as it is then, overlaps.  Then the call returns what
  the callback returns on that player: the callback is called once (a callback that counts
  takes the counter from \<open>n\<close> to \<open>n + 1\<close>), no state update follows, and the blocks
  \<open>post\<close> behind \<open>b\<close> have no influence, whatever they are.  Both resolvers.
\<close>

theorem hazard_terminal:
  "(overlapsHazard q b \<and> resolveLoop bm pre pl False = Finished q g \<longrightarrow>
      resolveCollisions pl (pre @ b # post) bm onReset env = onReset (q, env) \<and>
      resolveCollisions pl (pre @ b # post) bm countReset n = (q, Suc n))
   \<and> (overlapsHazard q b \<and> resolveLoop_p0 bm pre pl False = Finished q g \<longrightarrow>
      resolveCollisions_p0 pl (pre @ b # post) bm onReset env = onReset (q, env) \<and>
      resolveCollisions_p0 pl (pre @ b # post) bm countReset n = (q, Suc n))"
proof (intro conjI impI)
  assume h: "overlapsHazard q b \<and> resolveLoop bm pre pl False = Finished q g"
  then have r: "resolveBlock bm b q g = Reset"
    by (simp add: resolveBlock_Reset_iff overlapsHazard_def)
  from h have l: "resolveLoop bm (pre @ b # post) pl False = HazardHit q"
    by (simp add: resolveLoop_append r)
  show "resolveCollisions pl (pre @ b # post) bm onReset env = onReset (q, env)"
    by (simp add: resolveCollisions_def l)
  show "resolveCollisions pl (pre @ b # post) bm countReset n = (q, Suc n)"
    by (simp add: resolveCollisions_def l countReset_def)
next
  assume h: "overlapsHazard q b \<and> resolveLoop_p0 bm pre pl False = Finished q g"
  then have r: "resolveBlock_p0 bm b q g = Reset"
    by (simp add: resolveBlock_p0_Reset_iff overlapsHazard_def)
  from h have l: "resolveLoop_p0 bm (pre @ b # post) pl False = HazardHit q"
    by (simp add: resolveLoop_p0_append r)
  show "resolveCollisions_p0 pl (pre @ b # post) bm onReset env = onReset (q, env)"
    by (simp add: resolveCollisions_p0_def l)
  show "resolveCollisions_p0 pl (pre @ b # post) bm countReset n = (q, Suc n)"
    by (simp add: resolveCollisions_p0_def l countReset_def)
qed

lemma sqrt_225: "sqrt 225 = 15"
  by (rule real_sqrt_unique) simp_all

lemma hazard_scene_facts:
  "overlapsHazard (playerAt 5 70 0 1 True 5) (blockAt 0 1 0 Spike (Suc 0))"
  "resolveLoop hazardMap [blockAt 3 1 0 Standard 0] (playerAt 5 70 0 1 True 5) False
     = Finished (playerAt 5 70 0 1 True 5) False"
  "resolveLoop_p0 hazardMap [blockAt 3 1 0 Standard 0] (playerAt 5 70 0 1 True 5) False
     = Finished (playerAt 5 70 0 1 True 5) False"
  "resolveLoop hazardMap [blockAt 1 2 0 Standard 2] (playerAt 5 70 0 1 True 5) False
     = Finished (playerAt 0 70 0 1 True 5) False"
proof -
  show "overlapsHazard (playerAt 5 70 0 1 True 5) (blockAt 0 1 0 Spike (Suc 0))"
    by (simp add: overlapsHazard_def inRange_def collisionRange_def collides_def distSqOf_def
        distVec_def clamp_def ownBox_def playerRadius_def Let_def)
  show "resolveLoop hazardMap [blockAt 3 1 0 Standard 0] (playerAt 5 70 0 1 True 5) False
     = Finished (playerAt 5 70 0 1 True 5) False"
    by (simp add: resolveBlock_def inRange_def collisionRange_def)
  show "resolveLoop_p0 hazardMap [blockAt 3 1 0 Standard 0] (playerAt 5 70 0 1 True 5) False
     = Finished (playerAt 5 70 0 1 True 5) False"
    by (simp add: resolveBlock_p0_def inRange_def collisionRange_def)
  have c: "collisionBox (blockAt 1 2 0 Standard 2) hazardMap = (V3 20 60 (- 20), V3 60 100 20)"
    by (simp add: collisionBox_def mergeAllConnectedOnLayer_def mapGet_def hazardMap_def)
  have dv: "distVec (V3 5 70 0) (V3 20 60 (- 20), V3 60 100 20) = V3 (- 15) 0 0"
    by (simp add: distVec_def clamp_def Let_def)
  have ds: "distSqOf (V3 5 70 0) (V3 20 60 (- 20), V3 60 100 20) = 225"
    by (simp add: distSqOf_def dv Let_def)
  have n: "contactNormal (V3 5 70 0) (V3 20 60 (- 20), V3 60 100 20) = V3 (- 1) 0 0"
    by (simp add: contactNormal_def dv ds sqrt_225 divideScalar_def multiplyScalar_def)
  have nb: "\<not> hasNeighborInNormalDir hazardMap (blockAt 1 2 0 Standard 2) (V3 (- 1) 0 0)"
    by (simp add: hasNeighborInNormalDir_def signJS_def mapHas_def hazardMap_def)
  show "resolveLoop hazardMap [blockAt 1 2 0 Standard 2] (playerAt 5 70 0 1 True 5) False
     = Finished (playerAt 0 70 0 1 True 5) False"
    by (simp add: resolveBlock_def inRange_def collisionRange_def c collides_def ds n
        sqrt_225 playerRadius_def seamLikeOf_def nb pushOut_def dot_def
        Let_def playerAt_def add3_def multiplyScalar_def)
qed



text \<open>
  In the scene the player overlaps the Spike block; the Standard block behind it in the
  list would push the player from \<open>x = 5\<close> to \<open>x = 0\<close> if it were reached.
\<close>

theorem hazard_terminal_witness:
  "overlapsHazard (playerAt 5 70 0 1 True 5) (blockAt 0 1 0 Spike (Suc 0))
   \<and> resolveLoop hazardMap [blockAt 3 1 0 Standard 0] (playerAt 5 70 0 1 True 5) False
       = Finished (playerAt 5 70 0 1 True 5) False
   \<and> resolveLoop_p0 hazardMap [blockAt 3 1 0 Standard 0] (playerAt 5 70 0 1 True 5) False
       = Finished (playerAt 5 70 0 1 True 5) False
   \<and> resolveCollisions (playerAt 5 70 0 1 True 5) hazardBlocks hazardMap countReset 0
       = (playerAt 5 70 0 1 True 5, Suc 0)
   \<and> resolveCollisions_p0 (playerAt 5 70 0 1 True 5) hazardBlocks hazardMap countReset 0
       = (playerAt 5 70 0 1 True 5, Suc 0)
   \<and> resolveLoop hazardMap [blockAt 1 2 0 Standard 2] (playerAt 5 70 0 1 True 5) False
       = Finished (playerAt 0 70 0 1 True 5) False"
proof -
  have s: "hazardBlocks = [blockAt 3 1 0 Standard 0] @ blockAt 0 1 0 Spike (Suc 0) # [blockAt 1 2 0 Standard 2]"
    by (simp add: hazardBlocks_def)
  from hazard_scene_facts
    hazard_terminal [of "playerAt 5 70 0 1 True 5" "blockAt 0 1 0 Spike (Suc 0)" hazardMap
      "[blockAt 3 1 0 Standard 0]" "playerAt 5 70 0 1 True 5" False "[blockAt 1 2 0 Standard 2]"
      countReset 0 0]
  show ?thesis unfolding s by blast
qed

section \<open>The coyote countdown\<close>


lemma pushOut_flags:
  "pushOut pl g n pen = Continue q g' \<Longrightarrow> grounded q = grounded pl \<and> coyoteTime q = coyoteTime pl"
  by (auto simp: pushOut_def Let_def split: if_splits)

lemma resolveBlock_flags:
  "resolveBlock bm b pl g = Continue q g' \<Longrightarrow> grounded q = grounded pl \<and> coyoteTime q = coyoteTime pl"
  by (auto simp: resolveBlock_def Let_def split: if_splits dest: pushOut_flags)

lemma resolveBlock_p0_flags:
  "resolveBlock_p0 bm b pl g = Continue q g' \<Longrightarrow> grounded q = grounded pl \<and> coyoteTime q = coyoteTime pl"
  by (auto simp: resolveBlock_p0_def Let_def split: if_splits dest: pushOut_flags)

lemma resolveLoop_flags:
  "resolveLoop bm bs pl g = Finished q g' \<Longrightarrow> grounded q = grounded pl \<and> coyoteTime q = coyoteTime pl"
proof (induction bs arbitrary: pl g)
  case Nil
  then show ?case by simp
next
  case (Cons b bs)
  then show ?case
    by (cases "resolveBlock bm b pl g") (auto dest: resolveBlock_flags)
qed

lemma resolveLoop_p0_flags:
  "resolveLoop_p0 bm bs pl g = Finished q g' \<Longrightarrow> grounded q = grounded pl \<and> coyoteTime q = coyoteTime pl"
proof (induction bs arbitrary: pl g)
  case Nil
  then show ?case by simp
next
  case (Cons b bs)
  then show ?case
    by (cases "resolveBlock_p0 bm b pl g") (auto dest: resolveBlock_p0_flags)
qed

lemma quiet_call_flags:
  assumes "noGroundContact bm bs q1"
  shows "grounded (fst (resolveCollisions q1 bs bm countReset 0)) = (grounded q1 \<and> coyoteTime q1 > 0)"
    and "coyoteTime (fst (resolveCollisions q1 bs bm countReset 0))
           = (if coyoteTime q1 > 0 then coyoteTime q1 - 1 else coyoteTime q1)"
  using assms
  by (auto simp: noGroundContact_def resolveCollisions_def stateUpdate_def
      split: loopResult.splits dest: resolveLoop_flags)

lemma quiet_call_p0_flags:
  assumes "noGroundContact_p0 bm bs q1"
  shows "grounded (fst (resolveCollisions_p0 q1 bs bm countReset 0)) = (grounded q1 \<and> coyoteTime q1 > 0)"
    and "coyoteTime (fst (resolveCollisions_p0 q1 bs bm countReset 0))
           = (if coyoteTime q1 > 0 then coyoteTime q1 - 1 else coyoteTime q1)"
  using assms
  by (auto simp: noGroundContact_p0_def resolveCollisions_p0_def stateUpdate_def
      split: loopResult.splits dest: resolveLoop_p0_flags)

lemma quietCalls_flags:
  assumes "quietCalls k pl q" "grounded pl" "coyoteTime pl = coyoteFrames"
  shows "(k \<le> 5 \<longrightarrow> grounded q \<and> coyoteTime q = 5 - int k) \<and>
         (5 < k \<longrightarrow> \<not> grounded q \<and> coyoteTime q = 0)"
  using assms
proof (induction rule: quietCalls.induct)
  case (start pl)
  then show ?case by (simp add: coyoteFrames_def)
next
  case (call k pl q q1 bm bs)
  then show ?case
    by (cases "k \<le> 5") (auto simp: quiet_call_flags)
next
  case (call_p0 k pl q q1 bm bs)
  then show ?case
    by (cases "k \<le> 5") (auto simp: quiet_call_p0_flags)
qed

text \<open>
  Claim C5.  From a grounded player with \<open>coyoteTime = coyoteFrames\<close>, after \<open>k\<close>
  consecutive resolver calls without ground contact: as long as \<open>k \<le> coyoteFrames\<close> the
  player is still grounded, the jump is valid and \<open>coyoteTime = coyoteFrames - k\<close>; the
  call after these \<open>coyoteFrames\<close> calls sets \<open>grounded\<close> to false and ends the validity
  of the jump, and so it stays.
\<close>

theorem coyote_grace_window:
  "quietCalls k pl q \<and> grounded pl \<and> coyoteTime pl = coyoteFrames \<longrightarrow>
     (k \<le> nat coyoteFrames \<longrightarrow> grounded q \<and> jumpValid q \<and> coyoteTime q = coyoteFrames - int k) \<and>
     (k = Suc (nat coyoteFrames) \<longrightarrow> \<not> grounded q \<and> \<not> jumpValid q) \<and>
     (k > nat coyoteFrames \<longrightarrow> \<not> grounded q \<and> \<not> jumpValid q \<and> coyoteTime q = 0)"
  using quietCalls_flags [of k pl q]
  by (auto simp: jumpValid_def coyoteFrames_def)


lemma far_quiet_step:
  assumes "quietCalls k pl (playerAt 0 150 0 0 g c)"
  shows "quietCalls (Suc k) pl (stateUpdate False (playerAt 0 150 0 0 g c))"
proof -
  let ?q = "playerAt 0 150 0 0 g c"
  let ?b = "blockAt 0 0 0 Standard 0"
  have "playerRadius < distanceTo (pos ?q) (ownBox ?b)"
    by (simp add: far_above_distance playerRadius_def)
  then have "\<not> collides (pos ?q) (collisionBox ?b oneBlockMap)"
    by (simp add: oneBlock_box clear_not_collides)
  then have l: "resolveLoop oneBlockMap [?b] ?q False = Finished ?q False"
    by (simp add: resolveBlock_no_contact)
  then have n: "noGroundContact oneBlockMap [?b] ?q" by (simp add: noGroundContact_def)
  have "quietCalls (Suc k) pl (fst (resolveCollisions ?q [?b] oneBlockMap countReset 0))"
    by (rule quietCalls.call [OF assms _ _ n]) simp_all
  then show ?thesis unfolding resolveCollisions_def l by simp
qed

lemma far_update:
  "0 < c \<Longrightarrow> stateUpdate False (playerAt 0 150 0 0 g c) = playerAt 0 150 0 0 g (c - 1)"
  "stateUpdate False (playerAt 0 150 0 0 g 0) = playerAt 0 150 0 0 False 0"
  by (simp_all add: stateUpdate_def playerAt_def)

lemma far_quiet_5: "quietCalls 5 (playerAt 0 150 0 0 True 5) (playerAt 0 150 0 0 True 0)"
proof -
  have "quietCalls 0 (playerAt 0 150 0 0 True 5) (playerAt 0 150 0 0 True 5)"
    by (rule quietCalls.start)
  from far_quiet_step [OF this] have "quietCalls 1 (playerAt 0 150 0 0 True 5) (playerAt 0 150 0 0 True 4)"
    by (simp add: far_update)
  from far_quiet_step [OF this] have "quietCalls 2 (playerAt 0 150 0 0 True 5) (playerAt 0 150 0 0 True 3)"
    by (simp add: far_update numeral_2_eq_2)
  from far_quiet_step [OF this] have "quietCalls 3 (playerAt 0 150 0 0 True 5) (playerAt 0 150 0 0 True 2)"
    by (simp add: far_update numeral_3_eq_3)
  from far_quiet_step [OF this] have "quietCalls 4 (playerAt 0 150 0 0 True 5) (playerAt 0 150 0 0 True 1)"
    by (simp add: far_update eval_nat_numeral)
  from far_quiet_step [OF this] show ?thesis
    by (simp add: far_update eval_nat_numeral)
qed

lemma far_quiet_6: "quietCalls 6 (playerAt 0 150 0 0 True 5) (playerAt 0 150 0 0 False 0)"
  using far_quiet_step [OF far_quiet_5] by (simp add: far_update eval_nat_numeral)

text \<open>
  Five and six calls far above the only block: grounded with the jump valid after the
  fifth, neither after the sixth.
\<close>

theorem coyote_grace_window_witness:
  "quietCalls 5 (playerAt 0 150 0 0 True 5) (playerAt 0 150 0 0 True 0)
   \<and> quietCalls 6 (playerAt 0 150 0 0 True 5) (playerAt 0 150 0 0 False 0)
   \<and> grounded (playerAt 0 150 0 0 True 5) \<and> coyoteTime (playerAt 0 150 0 0 True 5) = coyoteFrames
   \<and> 5 \<le> nat coyoteFrames \<and> 6 = Suc (nat coyoteFrames)
   \<and> grounded (playerAt 0 150 0 0 True 0) \<and> jumpValid (playerAt 0 150 0 0 True 0)
   \<and> \<not> grounded (playerAt 0 150 0 0 False 0) \<and> \<not> jumpValid (playerAt 0 150 0 0 False 0)"
  using coyote_grace_window [of 5 "playerAt 0 150 0 0 True 5" "playerAt 0 150 0 0 True 0"]
    coyote_grace_window [of 6 "playerAt 0 150 0 0 True 5" "playerAt 0 150 0 0 False 0"]
    far_quiet_5 far_quiet_6
  by (simp add: coyoteFrames_def)

section \<open>The reset of the player\<close>


lemma resetPlayer_player:
  "player (resetPlayer eng) = (player eng)\<lparr>pos := V3 0 150 0, vel := V3 0 0 0\<rparr>"
  by (simp add: resetPlayer_def resetInputs_def onStatusUpdate_def Let_def)

lemma resolveOnce_hazard:
  "resolveLoop (blockMap eng) (blocksData eng) (player eng) False = HazardHit q \<Longrightarrow>
     resolveOnce eng = resetPlayer (eng\<lparr>player := q\<rparr>)"
  by (simp add: resolveOnce_def resolveCollisions_def resetCallback_def Let_def)

text \<open>
  Claim C2, in the form the code satisfies.  \<open>resetPlayer\<close> overwrites the position with \<open>(0, 150, 0)\<close>
  and the velocity with \<open>(0, 0, 0)\<close>, clears the input flags and reports
  \<open>RESPAWNED!\<close>; \<open>grounded\<close> and \<open>coyoteTime\<close> keep the values they had before the
  reset.  So it is on both paths to it: the hazard contact in a resolver call of the
  engine, and the fall check of \<open>fixedUpdate\<close>.
\<close>

theorem reset_overwrites_position_and_velocity:
  "player (resetPlayer eng) = (player eng)\<lparr>pos := V3 0 150 0, vel := V3 0 0 0\<rparr>
   \<and> pos (player (resetPlayer eng)) = V3 0 150 0
   \<and> vel (player (resetPlayer eng)) = V3 0 0 0
   \<and> grounded (player (resetPlayer eng)) = grounded (player eng)
   \<and> coyoteTime (player (resetPlayer eng)) = coyoteTime (player eng)
   \<and> input (resetPlayer eng)
       = \<lparr>keyW = False, keyA = False, keyS = False, keyD = False, keySpace = False\<rparr>
   \<and> statusLog (resetPlayer eng) = statusLog eng @ [''RESPAWNED!'']
   \<and> (resolveLoop (blockMap eng) (blocksData eng) (player eng) False = HazardHit q \<longrightarrow>
        player (resolveOnce eng) = q\<lparr>pos := V3 0 150 0, vel := V3 0 0 0\<rparr>)
   \<and> (yc (pos (player eng)) < - 300 \<longrightarrow>
        player (fallCheck eng) = (player eng)\<lparr>pos := V3 0 150 0, vel := V3 0 0 0\<rparr>)"
proof (intro conjI impI)
  assume "resolveLoop (blockMap eng) (blocksData eng) (player eng) False = HazardHit q"
  then show "player (resolveOnce eng) = q\<lparr>pos := V3 0 150 0, vel := V3 0 0 0\<rparr>"
    by (simp add: resolveOnce_hazard resetPlayer_player)
next
  assume "yc (pos (player eng)) < - 300"
  then show "player (fallCheck eng) = (player eng)\<lparr>pos := V3 0 150 0, vel := V3 0 0 0\<rparr>"
    by (simp add: fallCheck_def resetPlayer_player)
qed (simp_all add: resetPlayer_def resetInputs_def onStatusUpdate_def Let_def)

text \<open>
  Claim C2 as stated fails: a player that is grounded with \<open>coyoteTime = 5\<close> when it
  falls below the floor is still so after the reset, which is not the player of the
  constructor.
\<close>

theorem reset_keeps_grounded_counterexample:
  "player (resetPlayer (sceneEngine (playerAt 10 (- 301) 0 (- 7) True 5) [] []))
     = playerAt 0 150 0 0 True 5
   \<and> grounded (player (resetPlayer (sceneEngine (playerAt 10 (- 301) 0 (- 7) True 5) [] [])))
   \<and> coyoteTime (player (resetPlayer (sceneEngine (playerAt 10 (- 301) 0 (- 7) True 5) [] []))) = 5
   \<and> player (resetPlayer (sceneEngine (playerAt 10 (- 301) 0 (- 7) True 5) [] [])) \<noteq> initialPlayer
   \<and> player (fallCheck (sceneEngine (playerAt 10 (- 301) 0 (- 7) True 5) [] []))
     = playerAt 0 150 0 0 True 5"
  by (simp add: resetPlayer_def resetInputs_def onStatusUpdate_def Let_def sceneEngine_def
      constructed_def playerAt_def initialPlayer_def fallCheck_def)

lemma hazard_scene_loop:
  "resolveLoop hazardMap hazardBlocks (playerAt 5 70 0 1 True 5) False
     = HazardHit (playerAt 5 70 0 1 True 5)"
proof -
  have "resolveBlock hazardMap (blockAt 0 1 0 Spike (Suc 0)) (playerAt 5 70 0 1 True 5) False = Reset"
    using hazard_scene_facts(1) by (simp add: resolveBlock_Reset_iff overlapsHazard_def)
  moreover have "resolveBlock hazardMap (blockAt 3 1 0 Standard 0) (playerAt 5 70 0 1 True 5) False
      = Continue (playerAt 5 70 0 1 True 5) False"
    by (simp add: resolveBlock_def inRange_def collisionRange_def)
  ultimately show ?thesis by (simp add: hazardBlocks_def)
qed

text \<open>The statement on the hazard scene and on the fallen player.\<close>

theorem reset_overwrites_position_and_velocity_witness:
  "resolveLoop (blockMap (sceneEngine (playerAt 5 70 0 1 True 5) hazardBlocks hazardMap))
     (blocksData (sceneEngine (playerAt 5 70 0 1 True 5) hazardBlocks hazardMap))
     (player (sceneEngine (playerAt 5 70 0 1 True 5) hazardBlocks hazardMap)) False
     = HazardHit (playerAt 5 70 0 1 True 5)
   \<and> player (resolveOnce (sceneEngine (playerAt 5 70 0 1 True 5) hazardBlocks hazardMap))
     = playerAt 0 150 0 0 True 5
   \<and> yc (pos (player (sceneEngine (playerAt 10 (- 301) 0 (- 7) True 5) [] []))) < - 300
   \<and> player (fallCheck (sceneEngine (playerAt 10 (- 301) 0 (- 7) True 5) [] []))
     = playerAt 0 150 0 0 True 5"
proof -
  let ?e = "sceneEngine (playerAt 5 70 0 1 True 5) hazardBlocks hazardMap"
  let ?f = "sceneEngine (playerAt 10 (- 301) 0 (- 7) True 5) [] []"
  have h: "resolveLoop (blockMap ?e) (blocksData ?e) (player ?e) False = HazardHit (playerAt 5 70 0 1 True 5)"
    by (simp add: sceneEngine_def constructed_def hazard_scene_loop)
  have y: "yc (pos (player ?f)) < - 300" by (simp add: sceneEngine_def)
  from h y reset_overwrites_position_and_velocity [of ?e "playerAt 5 70 0 1 True 5"]
    reset_overwrites_position_and_velocity [of ?f "playerAt 5 70 0 1 True 5"]
  show ?thesis by (simp add: playerAt_def sceneEngine_def)
qed

section \<open>Seams\<close>


lemma seamLike_skips:
  assumes "typeB b = Standard" "seamLikeOf pl (contactNormal (pos pl) (collisionBox b bm))"
  shows "resolveBlock bm b pl g = Continue pl g"
  using assms by (simp add: resolveBlock_def Let_def)

lemma resolveBlock_p0_contact:
  assumes "typeB b = Standard" "inRange (pos pl) b" "collides (pos pl) (ownBox b)"
  shows "resolveBlock_p0 bm b pl g =
     (if isInternalEdge_p0 bm b (contactNormal (pos pl) (ownBox b)) then Continue pl g
      else pushOut pl g (contactNormal (pos pl) (ownBox b))
             (playerRadius - sqrt (distSqOf (pos pl) (ownBox b))))"
  using assms by (simp add: resolveBlock_p0_def Let_def)

text \<open>The landing on the seam, one resolver call.\<close>

lemma twoBlocks_box:
  "collisionBox (blockAt 0 0 0 Standard 0) twoBlockMap = (V3 (- 20) (- 20) (- 20), V3 60 20 20)"
  "collisionBox (blockAt 1 0 0 Standard (Suc 0)) twoBlockMap = (V3 (- 20) (- 20) (- 20), V3 60 20 20)"
  by (simp_all add: collisionBox_def mergeAllConnectedOnLayer_def mapGet_def twoBlockMap_def)

lemma above_distVec:
  assumes "20 < py" "- 20 \<le> pz" "pz \<le> 20"
  shows "distVec (V3 20 py pz) (V3 (- 20) (- 20) (- 20), V3 60 20 20) = V3 0 (py - 20) 0"
    and "distVec (V3 20 py pz) (ownBox (blockAt 0 0 0 Standard 0)) = V3 0 (py - 20) 0"
    and "distVec (V3 20 py pz) (ownBox (blockAt 1 0 0 Standard (Suc 0))) = V3 0 (py - 20) 0"
  using assms by (simp_all add: distVec_def clamp_def ownBox_def Let_def)

lemma above_distSq:
  assumes "20 < py" "- 20 \<le> pz" "pz \<le> 20"
  shows "distSqOf (V3 20 py pz) (V3 (- 20) (- 20) (- 20), V3 60 20 20) = (py - 20) * (py - 20)"
    and "distSqOf (V3 20 py pz) (ownBox (blockAt 0 0 0 Standard 0)) = (py - 20) * (py - 20)"
    and "distSqOf (V3 20 py pz) (ownBox (blockAt 1 0 0 Standard (Suc 0))) = (py - 20) * (py - 20)"
  using assms by (simp_all add: distSqOf_def above_distVec Let_def)

lemma above_normal:
  assumes "20 < py" "- 20 \<le> pz" "pz \<le> 20"
  shows "contactNormal (V3 20 py pz) (V3 (- 20) (- 20) (- 20), V3 60 20 20) = V3 0 1 0"
    and "contactNormal (V3 20 py pz) (ownBox (blockAt 0 0 0 Standard 0)) = V3 0 1 0"
    and "contactNormal (V3 20 py pz) (ownBox (blockAt 1 0 0 Standard (Suc 0))) = V3 0 1 0"
  using assms
  by (simp_all add: contactNormal_def above_distVec above_distSq divideScalar_def multiplyScalar_def)

lemma landing_pushOut:
  assumes "20 < py" "vy < 0"
  shows "pushOut \<lparr>pos = V3 20 py pz, vel = V3 0 vy 0, grounded = g, coyoteTime = c\<rparr> False (V3 0 1 0)
           (playerRadius - (py - 20))
         = Continue \<lparr>pos = V3 20 40 pz, vel = V3 0 0 0, grounded = g, coyoteTime = c\<rparr> True"
  using assms by (simp add: pushOut_def dot_def Let_def playerRadius_def add3_def multiplyScalar_def)

lemma landing_first_block:
  assumes "20 < py" "- 20 \<le> pz" "pz \<le> 20"
    and "collides (V3 20 py pz) (ownBox (blockAt 0 0 0 Standard 0))" "vy < 0"
  shows "resolveBlock twoBlockMap (blockAt 0 0 0 Standard 0)
           \<lparr>pos = V3 20 py pz, vel = V3 0 vy 0, grounded = g, coyoteTime = c\<rparr> False
         = Continue \<lparr>pos = V3 20 40 pz, vel = V3 0 0 0, grounded = g, coyoteTime = c\<rparr> True"
proof -
  note z = assms(1-3)
  have lt: "(py - 20) * (py - 20) < 400"
    using assms(4) by (simp add: collides_def above_distSq [OF z] playerRadius_def)
  have "py - 20 < 20"
  proof (rule ccontr)
    assume "\<not> py - 20 < 20"
    then have "20 * 20 \<le> (py - 20) * (py - 20)" by (intro mult_mono) simp_all
    with lt show False by simp
  qed
  then have py: "py < 40" by simp
  have col: "collides (V3 20 py pz) (V3 (- 20) (- 20) (- 20), V3 60 20 20)"
    using assms(4) by (simp add: collides_def above_distSq [OF z])
  have rng: "inRange (V3 20 py pz) (blockAt 0 0 0 Standard 0)"
    using z py by (simp add: inRange_def collisionRange_def)
  have seam: "\<not> seamLikeOf \<lparr>pos = V3 20 py pz, vel = V3 0 vy 0, grounded = g, coyoteTime = c\<rparr> (V3 0 1 0)"
    by (simp add: seamLikeOf_def)
  have nb: "\<not> hasNeighborInNormalDir twoBlockMap (blockAt 0 0 0 Standard 0) (V3 0 1 0)"
    by (simp add: hasNeighborInNormalDir_def)
  show ?thesis
    using col rng seam nb z assms(5)
    by (simp add: resolveBlock_def twoBlocks_box above_normal above_distSq landing_pushOut Let_def)
qed

lemma resting_block:
  assumes "- 20 \<le> pz" "pz \<le> 20"
  shows "resolveBlock twoBlockMap (blockAt 0 0 0 Standard 0)
      \<lparr>pos = V3 20 40 pz, vel = V3 0 0 0, grounded = g, coyoteTime = c\<rparr> f
    = Continue \<lparr>pos = V3 20 40 pz, vel = V3 0 0 0, grounded = g, coyoteTime = c\<rparr> f"
    and "resolveBlock twoBlockMap (blockAt 1 0 0 Standard (Suc 0))
      \<lparr>pos = V3 20 40 pz, vel = V3 0 0 0, grounded = g, coyoteTime = c\<rparr> f
    = Continue \<lparr>pos = V3 20 40 pz, vel = V3 0 0 0, grounded = g, coyoteTime = c\<rparr> f"
  using assms
  by (intro resolveBlock_no_contact,
      simp add: twoBlocks_box collides_def above_distSq playerRadius_def)+

lemma landing_call:
  assumes "20 < py" "- 20 \<le> pz" "pz \<le> 20"
    and "collides (V3 20 py pz) (ownBox (blockAt 0 0 0 Standard 0))" "vy < 0"
  shows "resolveLoop twoBlockMap twoBlocks
           \<lparr>pos = V3 20 py pz, vel = V3 0 vy 0, grounded = g, coyoteTime = c\<rparr> False
         = Finished \<lparr>pos = V3 20 40 pz, vel = V3 0 0 0, grounded = g, coyoteTime = c\<rparr> True"
  using assms
  by (simp add: twoBlocks_def landing_first_block resting_block)

lemma resting_call:
  assumes "- 20 \<le> pz" "pz \<le> 20"
  shows "resolveLoop twoBlockMap twoBlocks
      \<lparr>pos = V3 20 40 pz, vel = V3 0 0 0, grounded = g, coyoteTime = c\<rparr> False
    = Finished \<lparr>pos = V3 20 40 pz, vel = V3 0 0 0, grounded = g, coyoteTime = c\<rparr> False"
  using assms by (simp add: twoBlocks_def resting_block)


text \<open>The same landing in the second resolver.\<close>

lemma landing_first_block_p0:
  assumes "20 < py" "- 20 \<le> pz" "pz \<le> 20"
    and "collides (V3 20 py pz) (ownBox (blockAt 0 0 0 Standard 0))" "vy < 0"
  shows "resolveBlock_p0 twoBlockMap (blockAt 0 0 0 Standard 0)
           \<lparr>pos = V3 20 py pz, vel = V3 0 vy 0, grounded = g, coyoteTime = c\<rparr> False
         = Continue \<lparr>pos = V3 20 40 pz, vel = V3 0 0 0, grounded = g, coyoteTime = c\<rparr> True"
proof -
  note z = assms(1-3)
  have lt: "(py - 20) * (py - 20) < 400"
    using assms(4) by (simp add: collides_def above_distSq [OF z] playerRadius_def)
  have "py - 20 < 20"
  proof (rule ccontr)
    assume "\<not> py - 20 < 20"
    then have "20 * 20 \<le> (py - 20) * (py - 20)" by (intro mult_mono) simp_all
    with lt show False by simp
  qed
  then have py: "py < 40" by simp
  have rng: "inRange (V3 20 py pz) (blockAt 0 0 0 Standard 0)"
    using z py by (simp add: inRange_def collisionRange_def)
  have nb: "\<not> isInternalEdge_p0 twoBlockMap (blockAt 0 0 0 Standard 0) (V3 0 1 0)"
    by (simp add: isInternalEdge_p0_def)
  show ?thesis
    using assms(4) rng nb z assms(5)
    by (simp add: resolveBlock_p0_def above_normal above_distSq landing_pushOut Let_def)
qed

lemma resting_block_p0:
  assumes "- 20 \<le> pz" "pz \<le> 20"
  shows "resolveBlock_p0 twoBlockMap (blockAt 0 0 0 Standard 0)
      \<lparr>pos = V3 20 40 pz, vel = V3 0 0 0, grounded = g, coyoteTime = c\<rparr> f
    = Continue \<lparr>pos = V3 20 40 pz, vel = V3 0 0 0, grounded = g, coyoteTime = c\<rparr> f"
    and "resolveBlock_p0 twoBlockMap (blockAt 1 0 0 Standard (Suc 0))
      \<lparr>pos = V3 20 40 pz, vel = V3 0 0 0, grounded = g, coyoteTime = c\<rparr> f
    = Continue \<lparr>pos = V3 20 40 pz, vel = V3 0 0 0, grounded = g, coyoteTime = c\<rparr> f"
  using assms
  by (intro resolveBlock_p0_no_contact,
      simp add: collides_def above_distSq playerRadius_def)+

lemma landing_call_p0:
  assumes "20 < py" "- 20 \<le> pz" "pz \<le> 20"
    and "collides (V3 20 py pz) (ownBox (blockAt 0 0 0 Standard 0))" "vy < 0"
  shows "resolveLoop_p0 twoBlockMap twoBlocks
           \<lparr>pos = V3 20 py pz, vel = V3 0 vy 0, grounded = g, coyoteTime = c\<rparr> False
         = Finished \<lparr>pos = V3 20 40 pz, vel = V3 0 0 0, grounded = g, coyoteTime = c\<rparr> True"
  using assms
  by (simp add: twoBlocks_def landing_first_block_p0 resting_block_p0)

lemma resting_call_p0:
  assumes "- 20 \<le> pz" "pz \<le> 20"
  shows "resolveLoop_p0 twoBlockMap twoBlocks
      \<lparr>pos = V3 20 40 pz, vel = V3 0 0 0, grounded = g, coyoteTime = c\<rparr> False
    = Finished \<lparr>pos = V3 20 40 pz, vel = V3 0 0 0, grounded = g, coyoteTime = c\<rparr> False"
  using assms by (simp add: twoBlocks_def resting_block_p0)

text \<open>The integrator on the falling player.\<close>

lemma fl_20: "fl 20 = 20" "fl (- 20) = - 20"
proof -
  show "fl 20 = 20"
    using fl_eqI [where k = 48 and m = "5629499534213120" and x = "20"] by simp
  then show "fl (- 20) = - 20" by (simp add: fl_minus)
qed

lemma fl_half: "fl (- (1 / 2)) = - (1 / 2)"
proof -
  have "fl (1 / 2) = 1 / 2"
    using fl_eqI [where k = 53 and m = "4503599627370496" and x = "1 / 2"] by simp
  then show ?thesis by (simp add: fl_minus)
qed

lemma falling_trace:
  assumes "fl (- v) = v1" "fl (v1 - gravity) = vy" "fl (h + vy) = y1" "fl z = z1"
  shows "applyPhysics (playerAt 20 h z (- v) g c) (V3 0 0 0)
     = \<lparr>pos = V3 20 y1 z1, vel = V3 0 vy 0, grounded = g, coyoteTime = c\<rparr>"
  by (simp add: applyPhysics_def playerAt_def addV_def Let_def sqD_def overflow_def
      maxSpeed_def fl_20 assms)

lemma falling_integrate:
  "applyPhysics (playerAt 20 h z (- v) g c) (V3 0 0 0)
     = \<lparr>pos = V3 20 (fl (h + fl (fl (- v) - gravity))) (fl z),
        vel = V3 0 (fl (fl (- v) - gravity)) 0, grounded = g, coyoteTime = c\<rparr>"
  by (rule falling_trace [OF refl refl refl refl])

lemma falling_speed:
  assumes "0 \<le> v"
  shows "fl (fl (- v) - gravity) < 0"
proof -
  have "fl (- v) \<le> fl 0" using assms by (intro fl_mono) simp
  then have "fl (- v) - gravity \<le> - (1 / 2)" by (simp add: gravity_val)
  then have "fl (fl (- v) - gravity) \<le> fl (- (1 / 2))" by (rule fl_mono)
  then show ?thesis by (simp add: fl_half)
qed

lemma landsOnSeam_D:
  assumes "landsOnSeam h z v"
  shows "20 < fl (h + fl (fl (- v) - gravity))" "- 20 \<le> fl z" "fl z \<le> 20"
    and "collides (V3 20 (fl (h + fl (fl (- v) - gravity))) (fl z)) (ownBox (blockAt 0 0 0 Standard 0))"
    and "fl (fl (- v) - gravity) < 0" "0 \<le> v"
proof -
  note f = falling_integrate [of h z v False 0]
  from assms have a: "0 \<le> v" "- 20 \<le> z" "z \<le> 20"
    "20 < fl (h + fl (fl (- v) - gravity))"
    "collides (V3 20 (fl (h + fl (fl (- v) - gravity))) (fl z)) (ownBox (blockAt 0 0 0 Standard 0))"
    by (simp_all add: landsOnSeam_def f)
  show "20 < fl (h + fl (fl (- v) - gravity))" by (rule a(4))
  show "- 20 \<le> fl z" using fl_mono [OF a(2)] by (simp add: fl_20)
  show "fl z \<le> 20" using fl_mono [OF a(3)] by (simp add: fl_20)
  show "collides (V3 20 (fl (h + fl (fl (- v) - gravity))) (fl z)) (ownBox (blockAt 0 0 0 Standard 0))"
    by (rule a(5))
  show "fl (fl (- v) - gravity) < 0" by (rule falling_speed [OF a(1)])
  show "0 \<le> v" by (rule a(1))
qed

text \<open>The whole tick.\<close>

lemma resolveOnce_finished:
  "resolveLoop (blockMap e) (blocksData e) (player e) False = Finished q g \<Longrightarrow>
     resolveOnce e = e\<lparr>player := stateUpdate g q\<rparr>"
  by (simp add: resolveOnce_def resolveCollisions_def)

lemma resolveOnce_p0_finished:
  "resolveLoop_p0 (blockMap e) (blocksData e) (player e) False = Finished q g \<Longrightarrow>
     resolveOnce_p0 e = e\<lparr>player := stateUpdate g q\<rparr>"
  by (simp add: resolveOnce_p0_def resolveCollisions_p0_def)

lemma no_key_force: "inputForceOf camDir (input (sceneEngine pl bs bm)) = V3 0 0 0"
  by (simp add: inputForceOf_def sceneEngine_def constructed_def)

lemma scene_fields [simp]:
  "blockMap ((sceneEngine pl bs bm)\<lparr>player := q\<rparr>) = bm"
  "blocksData ((sceneEngine pl bs bm)\<lparr>player := q\<rparr>) = bs"
  "input ((sceneEngine pl bs bm)\<lparr>player := q\<rparr>) = input (sceneEngine pl bs bm)"
  "winHeight ((sceneEngine pl bs bm)\<lparr>player := q\<rparr>) = 4000"
  by (simp_all add: sceneEngine_def constructed_def)

lemma landing_physicsStep:
  assumes "landsOnSeam h z v"
  shows "physicsStep camDir (sceneEngine (playerAt 20 h z (- v) g c) twoBlocks twoBlockMap)
       = (sceneEngine (playerAt 20 h z (- v) g c) twoBlocks twoBlockMap)
           \<lparr>player := \<lparr>pos = V3 20 40 (fl z), vel = V3 0 0 0, grounded = True, coyoteTime = 2\<rparr>\<rparr>"
proof -
  let ?E = "sceneEngine (playerAt 20 h z (- v) g c) twoBlocks twoBlockMap"
  let ?R = "\<lambda>gr n. \<lparr>pos = V3 20 40 (fl z), vel = V3 0 0 0, grounded = gr, coyoteTime = n\<rparr>"
  note d = landsOnSeam_D [OF assms]
  let ?e1 = "?E\<lparr>player := applyPhysics (player ?E) (V3 0 0 0)\<rparr>"
  have p1: "player ?e1 = \<lparr>pos = V3 20 (fl (h + fl (fl (- v) - gravity))) (fl z),
                            vel = V3 0 (fl (fl (- v) - gravity)) 0, grounded = g, coyoteTime = c\<rparr>"
    by (simp add: sceneEngine_def falling_integrate)
  have "resolveLoop (blockMap ?e1) (blocksData ?e1) (player ?e1) False = Finished (?R g c) True"
    unfolding p1 using landing_call [OF d(1-5)] by (simp add: sceneEngine_def constructed_def)
  from resolveOnce_finished [OF this]
  have r1: "resolveOnce ?e1 = ?E\<lparr>player := ?R True 5\<rparr>"
    by (simp add: stateUpdate_def coyoteFrames_def)
  have step: "resolveOnce (?E\<lparr>player := ?R True n\<rparr>) = ?E\<lparr>player := ?R True (n - 1)\<rparr>"
    if "0 < n" for n
  proof -
    have "resolveLoop (blockMap (?E\<lparr>player := ?R True n\<rparr>)) (blocksData (?E\<lparr>player := ?R True n\<rparr>))
            (player (?E\<lparr>player := ?R True n\<rparr>)) False = Finished (?R True n) False"
      by (simp add: resting_call [OF d(2,3)])
    from resolveOnce_finished [OF this] that show ?thesis
      by (simp add: stateUpdate_def)
  qed
  have "physicsStep camDir ?E = resolveOnce (resolveOnce (resolveOnce (resolveOnce ?e1)))"
    by (simp add: physicsStep_def no_key_force Let_def)
  also have "\<dots> = ?E\<lparr>player := ?R True 2\<rparr>"
    by (simp add: r1 step)
  finally show ?thesis .
qed


lemma landing_physicsStep_p0:
  assumes "landsOnSeam h z v"
  shows "physicsStep_p0 camDir (sceneEngine (playerAt 20 h z (- v) g c) twoBlocks twoBlockMap)
       = (sceneEngine (playerAt 20 h z (- v) g c) twoBlocks twoBlockMap)
           \<lparr>player := \<lparr>pos = V3 20 40 (fl z), vel = V3 0 0 0, grounded = True, coyoteTime = 2\<rparr>\<rparr>"
proof -
  let ?E = "sceneEngine (playerAt 20 h z (- v) g c) twoBlocks twoBlockMap"
  let ?R = "\<lambda>gr n. \<lparr>pos = V3 20 40 (fl z), vel = V3 0 0 0, grounded = gr, coyoteTime = n\<rparr>"
  note d = landsOnSeam_D [OF assms]
  let ?e1 = "?E\<lparr>player := applyPhysics (player ?E) (V3 0 0 0)\<rparr>"
  have p1: "player ?e1 = \<lparr>pos = V3 20 (fl (h + fl (fl (- v) - gravity))) (fl z),
                            vel = V3 0 (fl (fl (- v) - gravity)) 0, grounded = g, coyoteTime = c\<rparr>"
    by (simp add: sceneEngine_def falling_integrate)
  have "resolveLoop_p0 (blockMap ?e1) (blocksData ?e1) (player ?e1) False = Finished (?R g c) True"
    unfolding p1 using landing_call_p0 [OF d(1-5)] by (simp add: sceneEngine_def constructed_def)
  from resolveOnce_p0_finished [OF this]
  have r1: "resolveOnce_p0 ?e1 = ?E\<lparr>player := ?R True 5\<rparr>"
    by (simp add: stateUpdate_def coyoteFrames_def)
  have step: "resolveOnce_p0 (?E\<lparr>player := ?R True n\<rparr>) = ?E\<lparr>player := ?R True (n - 1)\<rparr>"
    if "0 < n" for n
  proof -
    have "resolveLoop_p0 (blockMap (?E\<lparr>player := ?R True n\<rparr>)) (blocksData (?E\<lparr>player := ?R True n\<rparr>))
            (player (?E\<lparr>player := ?R True n\<rparr>)) False = Finished (?R True n) False"
      by (simp add: resting_call_p0 [OF d(2,3)])
    from resolveOnce_p0_finished [OF this] that show ?thesis
      by (simp add: stateUpdate_def)
  qed
  have "physicsStep_p0 camDir ?E
          = resolveOnce_p0 (resolveOnce_p0 (resolveOnce_p0 (resolveOnce_p0 ?e1)))"
    by (simp add: physicsStep_p0_def no_key_force Let_def)
  also have "\<dots> = ?E\<lparr>player := ?R True 2\<rparr>"
    by (simp add: r1 step)
  finally show ?thesis .
qed

lemma after_landing:
  "player (gameLogic (fallCheck (jumpStep ((sceneEngine pl bs bm)
      \<lparr>player := \<lparr>pos = V3 20 40 pz, vel = V3 0 0 0, grounded = True, coyoteTime = 2\<rparr>\<rparr>))))
   = \<lparr>pos = V3 20 40 pz, vel = V3 0 0 0, grounded = True, coyoteTime = 2\<rparr>"
  by (simp add: gameLogic_def fallCheck_def jumpStep_def onScoreUpdate_def onStatusUpdate_def
      sceneEngine_def constructed_def Let_def)

lemma cameTo_rest:
  "0 \<le> v \<Longrightarrow> cameTo \<lparr>pos = p, vel = V3 0 0 0, grounded = True, coyoteTime = n\<rparr> v"
  by (simp add: cameTo_def)

text \<open>A fall that the integrator does not bring into contact with the top face.\<close>

lemma below_distVec:
  assumes "py < - 20" "- 20 \<le> pz" "pz \<le> 20"
  shows "distVec (V3 20 py pz) (V3 (- 20) (- 20) (- 20), V3 60 20 20) = V3 0 (py + 20) 0"
    and "distVec (V3 20 py pz) (ownBox (blockAt 0 0 0 Standard 0)) = V3 0 (py + 20) 0"
    and "distVec (V3 20 py pz) (ownBox (blockAt 1 0 0 Standard (Suc 0))) = V3 0 (py + 20) 0"
  using assms by (simp_all add: distVec_def clamp_def ownBox_def Let_def)

lemma below_distSq:
  assumes "py < - 20" "- 20 \<le> pz" "pz \<le> 20"
  shows "distSqOf (V3 20 py pz) (V3 (- 20) (- 20) (- 20), V3 60 20 20) = (py + 20) * (py + 20)"
    and "distSqOf (V3 20 py pz) (ownBox (blockAt 0 0 0 Standard 0)) = (py + 20) * (py + 20)"
    and "distSqOf (V3 20 py pz) (ownBox (blockAt 1 0 0 Standard (Suc 0))) = (py + 20) * (py + 20)"
  using assms by (simp_all add: distSqOf_def below_distVec Let_def)

lemma below_sqrt: "py < - 20 \<Longrightarrow> sqrt ((py + 20) * (py + 20)) = - (py + 20)"
  by simp

lemma below_normal:
  assumes "py < - 20" "- 20 \<le> pz" "pz \<le> 20"
  shows "contactNormal (V3 20 py pz) (V3 (- 20) (- 20) (- 20), V3 60 20 20) = V3 0 (- 1) 0"
    and "contactNormal (V3 20 py pz) (ownBox (blockAt 0 0 0 Standard 0)) = V3 0 (- 1) 0"
    and "contactNormal (V3 20 py pz) (ownBox (blockAt 1 0 0 Standard (Suc 0))) = V3 0 (- 1) 0"
proof -
  have n: "py + 20 \<noteq> 0" using assms(1) by simp
  have d: "(py + 20) * (1 / - (py + 20)) = - 1" using n by (simp add: divide_simps)
  show "contactNormal (V3 20 py pz) (V3 (- 20) (- 20) (- 20), V3 60 20 20) = V3 0 (- 1) 0"
    unfolding contactNormal_def below_distVec [OF assms] below_distSq [OF assms]
      below_sqrt [OF assms(1)] divideScalar_def multiplyScalar_def using d by simp
  show "contactNormal (V3 20 py pz) (ownBox (blockAt 0 0 0 Standard 0)) = V3 0 (- 1) 0"
    unfolding contactNormal_def below_distVec [OF assms] below_distSq [OF assms]
      below_sqrt [OF assms(1)] divideScalar_def multiplyScalar_def using d by simp
  show "contactNormal (V3 20 py pz) (ownBox (blockAt 1 0 0 Standard (Suc 0))) = V3 0 (- 1) 0"
    unfolding contactNormal_def below_distVec [OF assms] below_distSq [OF assms]
      below_sqrt [OF assms(1)] divideScalar_def multiplyScalar_def using d by simp
qed

lemma below_pushOut:
  assumes "py < - 20" "vy < 0"
  shows "pushOut \<lparr>pos = V3 20 py pz, vel = V3 0 vy 0, grounded = g, coyoteTime = c\<rparr> f (V3 0 (- 1) 0)
           (playerRadius - sqrt ((py + 20) * (py + 20)))
         = Continue \<lparr>pos = V3 20 (- 40) pz, vel = V3 0 vy 0, grounded = g, coyoteTime = c\<rparr> f"
  unfolding below_sqrt [OF assms(1)] using assms
  by (simp add: pushOut_def dot_def Let_def playerRadius_def add3_def multiplyScalar_def)


lemma offSeam_record:
  assumes "offSeam q"
  obtains py pz vy c where
    "q = \<lparr>pos = V3 20 py pz, vel = V3 0 vy 0, grounded = False, coyoteTime = c\<rparr>"
    "- 20 \<le> pz" "pz \<le> 20" "vy < 0"
    "\<not> (20 < py \<and> collides (V3 20 py pz) (ownBox (blockAt 0 0 0 Standard 0)))"
proof -
  have e: "q = \<lparr>pos = V3 20 (yc (pos q)) (zc (pos q)), vel = V3 0 (yc (vel q)) 0,
             grounded = False, coyoteTime = coyoteTime q\<rparr>"
    using assms by (simp add: offSeam_def)
  have z: "- 20 \<le> zc (pos q)" "zc (pos q) \<le> 20" and v: "yc (vel q) < 0"
    using assms by (simp_all add: offSeam_def)
  have p: "V3 20 (yc (pos q)) (zc (pos q)) = pos q" using assms by (simp add: offSeam_def)
  have o: "\<not> (20 < yc (pos q)
      \<and> collides (V3 20 (yc (pos q)) (zc (pos q))) (ownBox (blockAt 0 0 0 Standard 0)))"
    unfolding p using assms by (simp add: offSeam_def)
  show ?thesis by (rule that [OF e z v o])
qed

lemma off_contact:
  assumes box: "box = (V3 (- 20) (- 20) (- 20), V3 60 20 20) \<or> box = ownBox (blockAt 0 0 0 Standard 0)
      \<or> box = ownBox (blockAt 1 0 0 Standard (Suc 0))"
    and z: "- 20 \<le> pz" "pz \<le> 20"
    and off: "\<not> (20 < py \<and> collides (V3 20 py pz) (ownBox (blockAt 0 0 0 Standard 0)))"
    and col: "collides (V3 20 py pz) box"
  shows "py < - 20" and "contactNormal (V3 20 py pz) box = V3 0 (- 1) 0"
    and "sqrt (distSqOf (V3 20 py pz) box) = sqrt ((py + 20) * (py + 20))"
proof -
  show b: "py < - 20"
  proof (rule ccontr)
    assume "\<not> py < - 20"
    then consider "20 < py" | "- 20 \<le> py" "py \<le> 20" by linarith
    then show False
    proof cases
      case 1
      from above_distSq [OF 1 z] box have "distSqOf (V3 20 py pz) box
          = distSqOf (V3 20 py pz) (ownBox (blockAt 0 0 0 Standard 0))" by auto
      with col have "collides (V3 20 py pz) (ownBox (blockAt 0 0 0 Standard 0))"
        by (simp add: collides_def)
      with 1 off show False by simp
    next
      case 2
      have "insideBox (V3 20 py pz) box"
        using box 2 z by (auto simp add: insideBox_def ownBox_def blockAt_def blockSize_def)
      from insideBox_distSq [OF this] col show False by (simp add: collides_def)
    qed
  qed
  from below_normal [OF b z] box show "contactNormal (V3 20 py pz) box = V3 0 (- 1) 0" by auto
  from below_distSq [OF b z] box
  show "sqrt (distSqOf (V3 20 py pz) box) = sqrt ((py + 20) * (py + 20))" by auto
qed

lemma offSeam_resolveBlock:
  assumes "offSeam q" "b = blockAt 0 0 0 Standard 0 \<or> b = blockAt 1 0 0 Standard (Suc 0)"
  shows "\<exists>q'. resolveBlock twoBlockMap b q g = Continue q' g \<and> offSeam q'
           \<and> coyoteTime q' = coyoteTime q"
proof -
  from assms(1) obtain py pz vy c where
    q: "q = \<lparr>pos = V3 20 py pz, vel = V3 0 vy 0, grounded = False, coyoteTime = c\<rparr>"
    and z: "- 20 \<le> pz" "pz \<le> 20" and vy: "vy < 0"
    and off: "\<not> (20 < py \<and> collides (V3 20 py pz) (ownBox (blockAt 0 0 0 Standard 0)))"
    by (rule offSeam_record)
  have box: "collisionBox b twoBlockMap = (V3 (- 20) (- 20) (- 20), V3 60 20 20)"
    using assms(2) twoBlocks_box by auto
  have t: "typeB b = Standard" using assms(2) by (auto simp add: blockAt_def)
  show ?thesis
  proof (cases "inRange (pos q) b \<and> collides (pos q) (collisionBox b twoBlockMap)")
    case False
    then have "resolveBlock twoBlockMap b q g = Continue q g"
      by (auto simp add: resolveBlock_def Let_def)
    with assms(1) show ?thesis by simp
  next
    case True
    then have col: "collides (V3 20 py pz) (V3 (- 20) (- 20) (- 20), V3 60 20 20)"
      by (simp add: q box)
    note c = off_contact [OF _ z off col, simplified]
    have seam: "\<not> seamLikeOf q (V3 0 (- 1) 0)" by (simp add: seamLikeOf_def)
    have nb: "\<not> hasNeighborInNormalDir twoBlockMap b (V3 0 (- 1) 0)"
      by (simp add: hasNeighborInNormalDir_def)
    have "resolveBlock twoBlockMap b q g
        = pushOut q g (V3 0 (- 1) 0) (playerRadius - sqrt ((py + 20) * (py + 20)))"
      using True t seam nb c(2,3) by (simp add: resolveBlock_def Let_def box q)
    also have "\<dots> = Continue \<lparr>pos = V3 20 (- 40) pz, vel = V3 0 vy 0, grounded = False,
                               coyoteTime = c\<rparr> g"
      unfolding q by (rule below_pushOut [OF c(1) vy])
    finally show ?thesis using z vy by (simp add: offSeam_def q)
  qed
qed

lemma offSeam_resolveBlock_p0:
  assumes "offSeam q" "b = blockAt 0 0 0 Standard 0 \<or> b = blockAt 1 0 0 Standard (Suc 0)"
  shows "\<exists>q'. resolveBlock_p0 twoBlockMap b q g = Continue q' g \<and> offSeam q'
           \<and> coyoteTime q' = coyoteTime q"
proof -
  from assms(1) obtain py pz vy c where
    q: "q = \<lparr>pos = V3 20 py pz, vel = V3 0 vy 0, grounded = False, coyoteTime = c\<rparr>"
    and z: "- 20 \<le> pz" "pz \<le> 20" and vy: "vy < 0"
    and off: "\<not> (20 < py \<and> collides (V3 20 py pz) (ownBox (blockAt 0 0 0 Standard 0)))"
    by (rule offSeam_record)
  have box: "ownBox b = ownBox (blockAt 0 0 0 Standard 0)
      \<or> ownBox b = ownBox (blockAt 1 0 0 Standard (Suc 0))"
    using assms(2) by auto
  have t: "typeB b = Standard" using assms(2) by (auto simp add: blockAt_def)
  show ?thesis
  proof (cases "inRange (pos q) b \<and> collides (pos q) (ownBox b)")
    case False
    then have "resolveBlock_p0 twoBlockMap b q g = Continue q g"
      by (auto simp add: resolveBlock_p0_def Let_def)
    with assms(1) show ?thesis by simp
  next
    case True
    then have col: "collides (V3 20 py pz) (ownBox b)" by (simp add: q)
    have b3: "ownBox b = (V3 (- 20) (- 20) (- 20), V3 60 20 20) \<or> ownBox b = ownBox (blockAt 0 0 0 Standard 0)
      \<or> ownBox b = ownBox (blockAt 1 0 0 Standard (Suc 0))" using box by blast
    note c = off_contact [OF b3 z off col]
    have nb: "\<not> isInternalEdge_p0 twoBlockMap b (V3 0 (- 1) 0)"
      by (simp add: isInternalEdge_p0_def)
    have "resolveBlock_p0 twoBlockMap b q g
        = pushOut q g (V3 0 (- 1) 0) (playerRadius - sqrt ((py + 20) * (py + 20)))"
      using True t nb c(2,3) by (simp add: resolveBlock_p0_def Let_def q)
    also have "\<dots> = Continue \<lparr>pos = V3 20 (- 40) pz, vel = V3 0 vy 0, grounded = False,
                               coyoteTime = c\<rparr> g"
      unfolding q by (rule below_pushOut [OF c(1) vy])
    finally show ?thesis using z vy by (simp add: offSeam_def q)
  qed
qed


lemma offSeam_loop:
  assumes "offSeam q"
  shows "\<exists>q'. resolveLoop twoBlockMap twoBlocks q g = Finished q' g \<and> offSeam q'"
proof -
  from offSeam_resolveBlock [OF assms, of "blockAt 0 0 0 Standard 0" g] obtain q1 where
    q1: "resolveBlock twoBlockMap (blockAt 0 0 0 Standard 0) q g = Continue q1 g" "offSeam q1"
    by auto
  from offSeam_resolveBlock [OF q1(2), of "blockAt 1 0 0 Standard (Suc 0)" g] obtain q2 where
    q2: "resolveBlock twoBlockMap (blockAt 1 0 0 Standard (Suc 0)) q1 g = Continue q2 g" "offSeam q2"
    by auto
  from q1 q2 show ?thesis by (simp add: twoBlocks_def)
qed

lemma offSeam_loop_p0:
  assumes "offSeam q"
  shows "\<exists>q'. resolveLoop_p0 twoBlockMap twoBlocks q g = Finished q' g \<and> offSeam q'"
proof -
  from offSeam_resolveBlock_p0 [OF assms, of "blockAt 0 0 0 Standard 0" g] obtain q1 where
    q1: "resolveBlock_p0 twoBlockMap (blockAt 0 0 0 Standard 0) q g = Continue q1 g" "offSeam q1"
    by auto
  from offSeam_resolveBlock_p0 [OF q1(2), of "blockAt 1 0 0 Standard (Suc 0)" g] obtain q2 where
    q2: "resolveBlock_p0 twoBlockMap (blockAt 1 0 0 Standard (Suc 0)) q1 g = Continue q2 g" "offSeam q2"
    by auto
  from q1 q2 show ?thesis by (simp add: twoBlocks_def)
qed

lemma offSeam_stateUpdate: "offSeam q \<Longrightarrow> offSeam (stateUpdate False q)"
  by (simp add: offSeam_def stateUpdate_def)

lemma offSeam_resolveOnce:
  assumes "offSeam (player e)" "blockMap e = twoBlockMap" "blocksData e = twoBlocks"
  shows "offSeam (player (resolveOnce e))" "blockMap (resolveOnce e) = twoBlockMap"
    "blocksData (resolveOnce e) = twoBlocks" "input (resolveOnce e) = input e"
proof -
  from offSeam_loop [OF assms(1), of False] obtain q' where
    q': "resolveLoop twoBlockMap twoBlocks (player e) False = Finished q' False" "offSeam q'"
    by blast
  then have "resolveLoop (blockMap e) (blocksData e) (player e) False = Finished q' False"
    by (simp add: assms(2,3))
  from resolveOnce_finished [OF this] have r: "resolveOnce e = e\<lparr>player := stateUpdate False q'\<rparr>" .
  show "offSeam (player (resolveOnce e))" by (simp add: r offSeam_stateUpdate q'(2))
  show "blockMap (resolveOnce e) = twoBlockMap" by (simp add: r assms(2))
  show "blocksData (resolveOnce e) = twoBlocks" by (simp add: r assms(3))
  show "input (resolveOnce e) = input e" by (simp add: r)
qed

lemma offSeam_resolveOnce_p0:
  assumes "offSeam (player e)" "blockMap e = twoBlockMap" "blocksData e = twoBlocks"
  shows "offSeam (player (resolveOnce_p0 e))" "blockMap (resolveOnce_p0 e) = twoBlockMap"
    "blocksData (resolveOnce_p0 e) = twoBlocks" "input (resolveOnce_p0 e) = input e"
proof -
  from offSeam_loop_p0 [OF assms(1), of False] obtain q' where
    q': "resolveLoop_p0 twoBlockMap twoBlocks (player e) False = Finished q' False" "offSeam q'"
    by blast
  then have "resolveLoop_p0 (blockMap e) (blocksData e) (player e) False = Finished q' False"
    by (simp add: assms(2,3))
  from resolveOnce_p0_finished [OF this]
  have r: "resolveOnce_p0 e = e\<lparr>player := stateUpdate False q'\<rparr>" .
  show "offSeam (player (resolveOnce_p0 e))" by (simp add: r offSeam_stateUpdate q'(2))
  show "blockMap (resolveOnce_p0 e) = twoBlockMap" by (simp add: r assms(2))
  show "blocksData (resolveOnce_p0 e) = twoBlocks" by (simp add: r assms(3))
  show "input (resolveOnce_p0 e) = input e" by (simp add: r)
qed

lemma offSeam_integrated:
  assumes "0 \<le> v" "- 20 \<le> z" "z \<le> 20" "\<not> landsOnSeam h z v"
  shows "offSeam (applyPhysics (playerAt 20 h z (- v) False c) (V3 0 0 0))"
proof -
  have z: "- 20 \<le> fl z" "fl z \<le> 20"
    using fl_mono [OF assms(2)] fl_mono [OF assms(3)] by (simp_all add: fl_20)
  have o: "\<not> (20 < fl (h + fl (fl (- v) - gravity))
      \<and> collides (V3 20 (fl (h + fl (fl (- v) - gravity))) (fl z)) (ownBox (blockAt 0 0 0 Standard 0)))"
    using assms by (simp add: landsOnSeam_def falling_integrate)
  show ?thesis
    using z o falling_speed [OF assms(1)] by (simp add: offSeam_def falling_integrate)
qed

lemma not_grounded_tail:
  assumes "\<not> grounded (player e)" "\<not> keySpace (input e)"
  shows "\<not> grounded (player (gameLogic (fallCheck (jumpStep e))))"
  using assms
  by (simp add: gameLogic_def fallCheck_def jumpStep_def onScoreUpdate_def onStatusUpdate_def
      resetPlayer_def resetInputs_def Let_def)

lemma missed_landing:
  assumes "0 \<le> v" "- 20 \<le> z" "z \<le> 20" "\<not> landsOnSeam h z v"
  shows "\<not> grounded (player (fixedUpdate camDir
            (sceneEngine (playerAt 20 h z (- v) False c) twoBlocks twoBlockMap)))"
    and "\<not> grounded (player (fixedUpdate_p0 camDir
            (sceneEngine (playerAt 20 h z (- v) False c) twoBlocks twoBlockMap)))"
proof -
  let ?E = "sceneEngine (playerAt 20 h z (- v) False c) twoBlocks twoBlockMap"
  let ?e1 = "?E\<lparr>player := applyPhysics (player ?E) (V3 0 0 0)\<rparr>"
  have k: "\<not> keySpace (input ?e1)" by (simp add: sceneEngine_def constructed_def)
  have s1: "offSeam (player ?e1)" "blockMap ?e1 = twoBlockMap" "blocksData ?e1 = twoBlocks"
    using offSeam_integrated [OF assms] by (simp_all add: sceneEngine_def constructed_def)
  note a = offSeam_resolveOnce [OF s1]
  note b = offSeam_resolveOnce [OF a(1-3)]
  note c = offSeam_resolveOnce [OF b(1-3)]
  note d = offSeam_resolveOnce [OF c(1-3)]
  have p: "physicsStep camDir ?E = resolveOnce (resolveOnce (resolveOnce (resolveOnce ?e1)))"
    by (simp add: physicsStep_def no_key_force Let_def)
  have "\<not> grounded (player (physicsStep camDir ?E))" "\<not> keySpace (input (physicsStep camDir ?E))"
    using d(1) k unfolding p by (simp_all add: offSeam_def a(4) b(4) c(4) d(4))
  then show "\<not> grounded (player (fixedUpdate camDir ?E))"
    unfolding fixedUpdate_def by (rule not_grounded_tail)
  note a0 = offSeam_resolveOnce_p0 [OF s1]
  note b0 = offSeam_resolveOnce_p0 [OF a0(1-3)]
  note c0 = offSeam_resolveOnce_p0 [OF b0(1-3)]
  note d0 = offSeam_resolveOnce_p0 [OF c0(1-3)]
  have p0: "physicsStep_p0 camDir ?E
      = resolveOnce_p0 (resolveOnce_p0 (resolveOnce_p0 (resolveOnce_p0 ?e1)))"
    by (simp add: physicsStep_p0_def no_key_force Let_def)
  have "\<not> grounded (player (physicsStep_p0 camDir ?E))"
    "\<not> keySpace (input (physicsStep_p0 camDir ?E))"
    using d0(1) k unfolding p0 by (simp_all add: offSeam_def a0(4) b0(4) c0(4) d0(4))
  then show "\<not> grounded (player (fixedUpdate_p0 camDir ?E))"
    unfolding fixedUpdate_p0_def by (rule not_grounded_tail)
qed

lemma after_tick:
  assumes "- 300 \<le> yc (pos q)"
  shows "player (gameLogic (fallCheck (jumpStep ((sceneEngine pl bs bm)\<lparr>player := q\<rparr>)))) = q"
  using assms
  by (simp add: gameLogic_def fallCheck_def jumpStep_def onScoreUpdate_def onStatusUpdate_def
      sceneEngine_def constructed_def Let_def)

text \<open>
  Claim C1, in the form the code satisfies.  In the resolver of \<open>services/PhysicsEngine.ts\<close> a contact with a
  Standard block is passed over, player and ground flag unchanged, whenever the player
  moves downward and the normal has \<open>|y| < 0.35\<close> and \<open>|x| > 0.5\<close> or \<open>|z| > 0.5\<close>.
  The second resolver has no such rule: a contact with a Standard block is passed over
  there exactly when its neighbour rule finds an internal edge, and pushed out otherwise.
  With either resolver, a player that falls straight down above the seam of the two
  adjoining blocks, anywhere along it, and that the integrator brings into contact with
  the top face is grounded after one fixed update, with no horizontal velocity and with
  the vertical velocity cancelled (\<open>cameTo\<close>).  A player that was not grounded and that
  the integrator does not bring into contact with the top face is not grounded after that
  fixed update.
\<close>

theorem seam_suppression:
  "(typeB b = Standard \<and> yc (vel pl) < 0 \<and>
      \<bar>yc (contactNormal (pos pl) (collisionBox b bm))\<bar> < 0.35 \<and>
      (\<bar>xc (contactNormal (pos pl) (collisionBox b bm))\<bar> > 0.5 \<or>
       \<bar>zc (contactNormal (pos pl) (collisionBox b bm))\<bar> > 0.5) \<longrightarrow>
     resolveBlock bm b pl g = Continue pl g)
   \<and> (typeB b = Standard \<and> inRange (pos pl) b \<and> collides (pos pl) (ownBox b) \<longrightarrow>
     resolveBlock_p0 bm b pl g =
       (if isInternalEdge_p0 bm b (contactNormal (pos pl) (ownBox b)) then Continue pl g
        else pushOut pl g (contactNormal (pos pl) (ownBox b))
               (playerRadius - sqrt (distSqOf (pos pl) (ownBox b)))))
   \<and> (landsOnSeam h z v \<longrightarrow>
     cameTo (player (fixedUpdate camDir
               (sceneEngine (playerAt 20 h z (- v) gr c) twoBlocks twoBlockMap))) v \<and>
     cameTo (player (fixedUpdate_p0 camDir
               (sceneEngine (playerAt 20 h z (- v) gr c) twoBlocks twoBlockMap))) v)
   \<and> (0 \<le> v \<and> - 20 \<le> z \<and> z \<le> 20 \<and> \<not> landsOnSeam h z v \<longrightarrow>
     \<not> grounded (player (fixedUpdate camDir
               (sceneEngine (playerAt 20 h z (- v) False c) twoBlocks twoBlockMap))) \<and>
     \<not> grounded (player (fixedUpdate_p0 camDir
               (sceneEngine (playerAt 20 h z (- v) False c) twoBlocks twoBlockMap))))"
proof (intro conjI impI)
  assume "typeB b = Standard \<and> yc (vel pl) < 0 \<and>
      \<bar>yc (contactNormal (pos pl) (collisionBox b bm))\<bar> < 0.35 \<and>
      (\<bar>xc (contactNormal (pos pl) (collisionBox b bm))\<bar> > 0.5 \<or>
       \<bar>zc (contactNormal (pos pl) (collisionBox b bm))\<bar> > 0.5)"
  then show "resolveBlock bm b pl g = Continue pl g"
    by (intro seamLike_skips) (simp_all add: seamLikeOf_def)
next
  assume "typeB b = Standard \<and> inRange (pos pl) b \<and> collides (pos pl) (ownBox b)"
  then show "resolveBlock_p0 bm b pl g =
       (if isInternalEdge_p0 bm b (contactNormal (pos pl) (ownBox b)) then Continue pl g
        else pushOut pl g (contactNormal (pos pl) (ownBox b))
               (playerRadius - sqrt (distSqOf (pos pl) (ownBox b))))"
    by (simp add: resolveBlock_p0_contact)
next
  assume l: "landsOnSeam h z v"
  then have v: "0 \<le> v" by (simp add: landsOnSeam_def)
  show "cameTo (player (fixedUpdate camDir
               (sceneEngine (playerAt 20 h z (- v) gr c) twoBlocks twoBlockMap))) v"
    unfolding fixedUpdate_def landing_physicsStep [OF l] after_landing
    by (rule cameTo_rest [OF v])
  show "cameTo (player (fixedUpdate_p0 camDir
               (sceneEngine (playerAt 20 h z (- v) gr c) twoBlocks twoBlockMap))) v"
    unfolding fixedUpdate_p0_def landing_physicsStep_p0 [OF l] after_landing
    by (rule cameTo_rest [OF v])
next
  assume a: "0 \<le> v \<and> - 20 \<le> z \<and> z \<le> 20 \<and> \<not> landsOnSeam h z v"
  then have b: "0 \<le> v" "- 20 \<le> z" "z \<le> 20" "\<not> landsOnSeam h z v" by simp_all
  show "\<not> grounded (player (fixedUpdate camDir
               (sceneEngine (playerAt 20 h z (- v) False c) twoBlocks twoBlockMap)))"
    by (rule missed_landing(1) [OF b])
  show "\<not> grounded (player (fixedUpdate_p0 camDir
               (sceneEngine (playerAt 20 h z (- v) False c) twoBlocks twoBlockMap)))"
    by (rule missed_landing(2) [OF b])
qed

text \<open>A sphere that falls beside the only block and touches its side face.\<close>

lemma side_contact:
  "collides (V3 30 0 0) (ownBox (blockAt 0 0 0 Standard 0))"
  "inRange (V3 30 0 0) (blockAt 0 0 0 Standard 0)"
  "distSqOf (V3 30 0 0) (ownBox (blockAt 0 0 0 Standard 0)) = 100"
  "contactNormal (V3 30 0 0) (ownBox (blockAt 0 0 0 Standard 0)) = V3 1 0 0"
proof -
  have dv: "distVec (V3 30 0 0) (ownBox (blockAt 0 0 0 Standard 0)) = V3 10 0 0"
    by (simp add: distVec_def clamp_def ownBox_def Let_def)
  show ds: "distSqOf (V3 30 0 0) (ownBox (blockAt 0 0 0 Standard 0)) = 100"
    by (simp add: distSqOf_def dv Let_def)
  show "collides (V3 30 0 0) (ownBox (blockAt 0 0 0 Standard 0))"
    by (simp add: collides_def ds playerRadius_def)
  show "inRange (V3 30 0 0) (blockAt 0 0 0 Standard 0)"
    by (simp add: inRange_def collisionRange_def)
  show "contactNormal (V3 30 0 0) (ownBox (blockAt 0 0 0 Standard 0)) = V3 1 0 0"
    by (simp add: contactNormal_def dv ds sqrt_100 divideScalar_def multiplyScalar_def)
qed

text \<open>The fall from the height 45 with the speed 30, which passes the top face in one step.\<close>

lemma tunnel_steps:
  shows "fl (- 30) = (- 30)"
    and "fl ((- 30) - gravity) = (- (8627208036181606 / 2 ^ 48))"
    and "fl (45 + (- (8627208036181606 / 2 ^ 48))) = (8078331831595828 / 2 ^ 49)"
    and "fl 0 = 0"
proof -
  show "fl (- 30) = (- 30)"
    using fl_eqI [where k = 48 and m = "-8444249301319680" and x = "- 30"] by (simp)
  show "fl ((- 30) - gravity) = (- (8627208036181606 / 2 ^ 48))"
    using fl_eqI [where k = 48 and m = "-8627208036181606" and x = "(- 30) - gravity"] by (simp add: gravity_val)
  show "fl (45 + (- (8627208036181606 / 2 ^ 48))) = (8078331831595828 / 2 ^ 49)"
    using fl_eqI [where k = 49 and m = "8078331831595828" and x = "45 + (- (8627208036181606 / 2 ^ 48))"] by (simp)
  show "fl 0 = 0"
    by simp
qed

lemma tunnel_clear:
  "\<forall>b \<in> set twoBlocks. \<not> collides (V3 20 (8078331831595828 / 2 ^ 49) 0) (collisionBox b twoBlockMap)"
  "\<forall>b \<in> set twoBlocks. \<not> collides (V3 20 (8078331831595828 / 2 ^ 49) 0) (ownBox b)"
proof -
  have i: "insideBox (V3 20 (8078331831595828 / 2 ^ 49) 0) (V3 (- 20) (- 20) (- 20), V3 60 20 20)"
    "insideBox (V3 20 (8078331831595828 / 2 ^ 49) 0) (ownBox (blockAt 0 0 0 Standard 0))"
    "insideBox (V3 20 (8078331831595828 / 2 ^ 49) 0) (ownBox (blockAt 1 0 0 Standard (Suc 0)))"
    by (simp_all add: insideBox_def ownBox_def blockAt_def blockSize_def)
  show "\<forall>b \<in> set twoBlocks. \<not> collides (V3 20 (8078331831595828 / 2 ^ 49) 0) (collisionBox b twoBlockMap)"
    using insideBox_distSq [OF i(1)] by (simp add: twoBlocks_def twoBlocks_box collides_def)
  show "\<forall>b \<in> set twoBlocks. \<not> collides (V3 20 (8078331831595828 / 2 ^ 49) 0) (ownBox b)"
    using insideBox_distSq [OF i(2)] insideBox_distSq [OF i(3)]
    by (simp add: twoBlocks_def collides_def)
qed

lemma tunnel_tick:
  "player (fixedUpdate camDir (sceneEngine (playerAt 20 45 0 (- 30) False 0) twoBlocks twoBlockMap))
     = \<lparr>pos = V3 20 (8078331831595828 / 2 ^ 49) 0, vel = V3 0 (- (8627208036181606 / 2 ^ 48)) 0, grounded = False, coyoteTime = 0\<rparr>"
  "player (fixedUpdate_p0 camDir (sceneEngine (playerAt 20 45 0 (- 30) False 0) twoBlocks twoBlockMap))
     = \<lparr>pos = V3 20 (8078331831595828 / 2 ^ 49) 0, vel = V3 0 (- (8627208036181606 / 2 ^ 48)) 0, grounded = False, coyoteTime = 0\<rparr>"
proof -
  let ?E = "sceneEngine (playerAt 20 45 0 (- 30) False 0) twoBlocks twoBlockMap"
  let ?q = "\<lparr>pos = V3 20 (8078331831595828 / 2 ^ 49) 0, vel = V3 0 (- (8627208036181606 / 2 ^ 48)) 0, grounded = False, coyoteTime = 0\<rparr>"
  have e1: "?E\<lparr>player := applyPhysics (player ?E) (V3 0 0 0)\<rparr> = ?E\<lparr>player := ?q\<rparr>"
    by (simp add: sceneEngine_def falling_trace [OF tunnel_steps])
  have "resolveLoop (blockMap (?E\<lparr>player := ?q\<rparr>)) (blocksData (?E\<lparr>player := ?q\<rparr>))
          (player (?E\<lparr>player := ?q\<rparr>)) False = Finished ?q False"
  proof -
    have "\<forall>b \<in> set twoBlocks. \<not> collides (pos ?q) (collisionBox b twoBlockMap)"
      using tunnel_clear(1) by simp
    from resolveLoop_clear [OF this, of False] show ?thesis by simp
  qed
  from resolveOnce_finished [OF this]
  have r: "resolveOnce (?E\<lparr>player := ?q\<rparr>) = ?E\<lparr>player := ?q\<rparr>"
    by (simp add: stateUpdate_def)
  have "resolveLoop_p0 (blockMap (?E\<lparr>player := ?q\<rparr>)) (blocksData (?E\<lparr>player := ?q\<rparr>))
          (player (?E\<lparr>player := ?q\<rparr>)) False = Finished ?q False"
  proof -
    have "\<forall>b \<in> set twoBlocks. \<not> collides (pos ?q) (ownBox b)"
      using tunnel_clear(2) by simp
    from resolveLoop_p0_clear [OF this, of twoBlockMap False] show ?thesis by simp
  qed
  from resolveOnce_p0_finished [OF this]
  have r0: "resolveOnce_p0 (?E\<lparr>player := ?q\<rparr>) = ?E\<lparr>player := ?q\<rparr>"
    by (simp add: stateUpdate_def)
  have s: "physicsStep camDir ?E = ?E\<lparr>player := ?q\<rparr>"
    unfolding physicsStep_def no_key_force Let_def e1 by (simp only: r)
  have s0: "physicsStep_p0 camDir ?E = ?E\<lparr>player := ?q\<rparr>"
    unfolding physicsStep_p0_def no_key_force Let_def e1 by (simp only: r0)
  have y: "- 300 \<le> yc (pos ?q)" by simp
  show "player (fixedUpdate camDir ?E) = ?q"
    unfolding fixedUpdate_def s by (rule after_tick [OF y])
  show "player (fixedUpdate_p0 camDir ?E) = ?q"
    unfolding fixedUpdate_p0_def s0 by (rule after_tick [OF y])
qed

text \<open>
  Claim C1 as stated fails twice.  In the second resolver the player moves downward, the
  normal of the contact is \<open>(1, 0, 0)\<close>, and the resolver pushes the player out, from
  \<open>x = 30\<close> to \<open>x = 40\<close>.  And a player that falls onto the seam from the height 45 with
  the speed 30 is, after one fixed update with either resolver, inside the blocks, still
  falling and not grounded.
\<close>

theorem seam_rule_absent_counterexample:
  "yc (vel (playerAt 30 0 0 (- 1) False 0)) < 0
   \<and> collides (pos (playerAt 30 0 0 (- 1) False 0)) (ownBox (blockAt 0 0 0 Standard 0))
   \<and> contactNormal (pos (playerAt 30 0 0 (- 1) False 0)) (ownBox (blockAt 0 0 0 Standard 0)) = V3 1 0 0
   \<and> \<bar>yc (V3 1 0 0)\<bar> < 0.35 \<and> \<bar>xc (V3 1 0 0)\<bar> > 0.5
   \<and> resolveBlock_p0 oneBlockMap (blockAt 0 0 0 Standard 0) (playerAt 30 0 0 (- 1) False 0) False
       = Continue (playerAt 40 0 0 (- 1) False 0) False
   \<and> resolveCollisions_p0 (playerAt 30 0 0 (- 1) False 0) [blockAt 0 0 0 Standard 0] oneBlockMap
        countReset 0 = (playerAt 40 0 0 (- 1) False 0, 0)
   \<and> pos (playerAt 40 0 0 (- 1) False 0) \<noteq> pos (playerAt 30 0 0 (- 1) False 0)
   \<and> player (fixedUpdate (V3 0 0 (- 1))
               (sceneEngine (playerAt 20 45 0 (- 30) False 0) twoBlocks twoBlockMap))
       = \<lparr>pos = V3 20 (8078331831595828 / 2 ^ 49) 0, vel = V3 0 (- (8627208036181606 / 2 ^ 48)) 0, grounded = False, coyoteTime = 0\<rparr>
   \<and> player (fixedUpdate_p0 (V3 0 0 (- 1))
               (sceneEngine (playerAt 20 45 0 (- 30) False 0) twoBlocks twoBlockMap))
       = \<lparr>pos = V3 20 (8078331831595828 / 2 ^ 49) 0, vel = V3 0 (- (8627208036181606 / 2 ^ 48)) 0, grounded = False, coyoteTime = 0\<rparr>
   \<and> (- (8627208036181606 / 2 ^ 48)) < (- 30 :: real)
   \<and> \<not> cameTo \<lparr>pos = V3 20 (8078331831595828 / 2 ^ 49) 0, vel = V3 0 (- (8627208036181606 / 2 ^ 48)) 0, grounded = False, coyoteTime = 0\<rparr> 30"
proof -
  have nb: "\<not> isInternalEdge_p0 oneBlockMap (blockAt 0 0 0 Standard 0) (V3 1 0 0)"
    by (simp add: isInternalEdge_p0_def signJS_def mapHas_def oneBlockMap_def)
  have po: "pushOut (playerAt 30 0 0 (- 1) False 0) False (V3 1 0 0) (playerRadius - sqrt 100)
            = Continue (playerAt 40 0 0 (- 1) False 0) False"
    by (simp add: pushOut_def dot_def Let_def playerAt_def playerRadius_def sqrt_100 add3_def
        multiplyScalar_def)
  have rb: "resolveBlock_p0 oneBlockMap (blockAt 0 0 0 Standard 0) (playerAt 30 0 0 (- 1) False 0) False
       = Continue (playerAt 40 0 0 (- 1) False 0) False"
    using resolveBlock_p0_contact [of "blockAt 0 0 0 Standard 0" "playerAt 30 0 0 (- 1) False 0"
        oneBlockMap False] nb po
    by (simp add: side_contact)
  have su: "stateUpdate False (playerAt 40 0 0 (- 1) False 0) = playerAt 40 0 0 (- 1) False 0"
    by (simp add: stateUpdate_def playerAt_def)
  have rc: "resolveCollisions_p0 (playerAt 30 0 0 (- 1) False 0) [blockAt 0 0 0 Standard 0] oneBlockMap
        countReset 0 = (playerAt 40 0 0 (- 1) False 0, 0)"
    unfolding resolveCollisions_p0_def resolveLoop_p0.simps rb by (simp add: su)
  have a: "yc (vel (playerAt 30 0 0 (- 1) False 0)) < 0
   \<and> collides (pos (playerAt 30 0 0 (- 1) False 0)) (ownBox (blockAt 0 0 0 Standard 0))
   \<and> contactNormal (pos (playerAt 30 0 0 (- 1) False 0)) (ownBox (blockAt 0 0 0 Standard 0)) = V3 1 0 0
   \<and> \<bar>yc (V3 1 0 0)\<bar> < 0.35 \<and> \<bar>xc (V3 1 0 0)\<bar> > 0.5
   \<and> resolveBlock_p0 oneBlockMap (blockAt 0 0 0 Standard 0) (playerAt 30 0 0 (- 1) False 0) False
       = Continue (playerAt 40 0 0 (- 1) False 0) False
   \<and> resolveCollisions_p0 (playerAt 30 0 0 (- 1) False 0) [blockAt 0 0 0 Standard 0] oneBlockMap
        countReset 0 = (playerAt 40 0 0 (- 1) False 0, 0)
   \<and> pos (playerAt 40 0 0 (- 1) False 0) \<noteq> pos (playerAt 30 0 0 (- 1) False 0)"
    using rb rc by (simp add: side_contact)
  have b: "(- (8627208036181606 / 2 ^ 48)) < (- 30 :: real)" by simp
  have c: "\<not> cameTo \<lparr>pos = V3 20 (8078331831595828 / 2 ^ 49) 0, vel = V3 0 (- (8627208036181606 / 2 ^ 48)) 0, grounded = False, coyoteTime = 0\<rparr> 30"
    by (simp add: cameTo_def)
  from a tunnel_tick [of "V3 0 0 (- 1)"] b c show ?thesis by (simp only: simp_thms)
qed

text \<open>
  The same side contact in the first resolver, passed over; the landing from the height 45
  with the speed 5, which the integrator brings to the height 39.35; and the fall from the
  same height with the speed 30, which it brings below the top face.
\<close>

lemma soft_steps:
  shows "fl (- 5) = (- 5)"
    and "fl ((- 5) - gravity) = (- (6361334473660826 / 2 ^ 50))"
    and "fl (45 + (- (6361334473660826 / 2 ^ 50))) = (5538020166782157 / 2 ^ 47)"
    and "fl 0 = 0"
proof -
  show "fl (- 5) = (- 5)"
    using fl_eqI [where k = 50 and m = "-5629499534213120" and x = "- 5"] by (simp)
  show "fl ((- 5) - gravity) = (- (6361334473660826 / 2 ^ 50))"
    using fl_eqI [where k = 50 and m = "-6361334473660826" and x = "(- 5) - gravity"] by (simp add: gravity_val)
  show "fl (45 + (- (6361334473660826 / 2 ^ 50))) = (5538020166782157 / 2 ^ 47)"
    using fl_eqI [where k = 47 and m = "5538020166782157" and x = "45 + (- (6361334473660826 / 2 ^ 50))"] by (simp)
  show "fl 0 = 0"
    by simp
qed

lemma soft_lands: "landsOnSeam 45 0 5"
proof -
  have p: "pos (applyPhysics (playerAt 20 45 0 (- 5) False 0) (V3 0 0 0)) = V3 20 (5538020166782157 / 2 ^ 47) 0"
    by (simp add: falling_trace [OF soft_steps])
  have c: "collides (V3 20 (5538020166782157 / 2 ^ 47) 0) (ownBox (blockAt 0 0 0 Standard 0))"
    by (simp add: collides_def above_distSq playerRadius_def)
  show ?thesis unfolding landsOnSeam_def p using c by simp
qed

theorem seam_suppression_witness:
  "typeB (blockAt 0 0 0 Standard 0) = Standard
   \<and> yc (vel (playerAt 30 0 0 (- 1) False 0)) < 0
   \<and> collides (pos (playerAt 30 0 0 (- 1) False 0)) (collisionBox (blockAt 0 0 0 Standard 0) oneBlockMap)
   \<and> contactNormal (pos (playerAt 30 0 0 (- 1) False 0))
        (collisionBox (blockAt 0 0 0 Standard 0) oneBlockMap) = V3 1 0 0
   \<and> resolveBlock oneBlockMap (blockAt 0 0 0 Standard 0) (playerAt 30 0 0 (- 1) False 0) False
       = Continue (playerAt 30 0 0 (- 1) False 0) False
   \<and> inRange (pos (playerAt 30 0 0 (- 1) False 0)) (blockAt 0 0 0 Standard 0)
   \<and> resolveBlock_p0 oneBlockMap (blockAt 0 0 0 Standard 0) (playerAt 30 0 0 (- 1) False 0) False
       = pushOut (playerAt 30 0 0 (- 1) False 0) False (V3 1 0 0) (playerRadius - sqrt 100)
   \<and> landsOnSeam 45 0 5
   \<and> cameTo (player (fixedUpdate (V3 0 0 (- 1))
                (sceneEngine (playerAt 20 45 0 (- 5) False 0) twoBlocks twoBlockMap))) 5
   \<and> cameTo (player (fixedUpdate_p0 (V3 0 0 (- 1))
                (sceneEngine (playerAt 20 45 0 (- 5) False 0) twoBlocks twoBlockMap))) 5
   \<and> \<not> landsOnSeam 45 0 30
   \<and> \<not> grounded (player (fixedUpdate (V3 0 0 (- 1))
                (sceneEngine (playerAt 20 45 0 (- 30) False 0) twoBlocks twoBlockMap)))
   \<and> \<not> grounded (player (fixedUpdate_p0 (V3 0 0 (- 1))
                (sceneEngine (playerAt 20 45 0 (- 30) False 0) twoBlocks twoBlockMap)))"
proof -
  note l = soft_lands
  have p: "pos (applyPhysics (playerAt 20 45 0 (- 30) False 0) (V3 0 0 0)) = V3 20 (8078331831595828 / 2 ^ 49) 0"
    by (simp add: falling_trace [OF tunnel_steps])
  have m: "\<not> landsOnSeam 45 0 30" unfolding landsOnSeam_def p by simp
  from m seam_suppression [where h = 45 and z = 0 and v = 30 and camDir = "V3 0 0 (- 1)" and c = 0]
  have n: "\<not> grounded (player (fixedUpdate (V3 0 0 (- 1))
                (sceneEngine (playerAt 20 45 0 (- 30) False 0) twoBlocks twoBlockMap)))"
    "\<not> grounded (player (fixedUpdate_p0 (V3 0 0 (- 1))
                (sceneEngine (playerAt 20 45 0 (- 30) False 0) twoBlocks twoBlockMap)))"
    by simp_all
  have nb: "\<not> isInternalEdge_p0 oneBlockMap (blockAt 0 0 0 Standard 0) (V3 1 0 0)"
    by (simp add: isInternalEdge_p0_def signJS_def mapHas_def oneBlockMap_def)
  from l nb side_contact
    seam_suppression [where b = "blockAt 0 0 0 Standard 0" and pl = "playerAt 30 0 0 (- 1) False 0"
      and bm = oneBlockMap and g = False and h = 45 and z = 0 and v = 5
      and camDir = "V3 0 0 (- 1)" and gr = False and c = 0]
  have w: "typeB (blockAt 0 0 0 Standard 0) = Standard
   \<and> yc (vel (playerAt 30 0 0 (- 1) False 0)) < 0
   \<and> collides (pos (playerAt 30 0 0 (- 1) False 0)) (collisionBox (blockAt 0 0 0 Standard 0) oneBlockMap)
   \<and> contactNormal (pos (playerAt 30 0 0 (- 1) False 0))
        (collisionBox (blockAt 0 0 0 Standard 0) oneBlockMap) = V3 1 0 0
   \<and> resolveBlock oneBlockMap (blockAt 0 0 0 Standard 0) (playerAt 30 0 0 (- 1) False 0) False
       = Continue (playerAt 30 0 0 (- 1) False 0) False
   \<and> inRange (pos (playerAt 30 0 0 (- 1) False 0)) (blockAt 0 0 0 Standard 0)
   \<and> resolveBlock_p0 oneBlockMap (blockAt 0 0 0 Standard 0) (playerAt 30 0 0 (- 1) False 0) False
       = pushOut (playerAt 30 0 0 (- 1) False 0) False (V3 1 0 0) (playerRadius - sqrt 100)
   \<and> landsOnSeam 45 0 5
   \<and> cameTo (player (fixedUpdate (V3 0 0 (- 1))
                (sceneEngine (playerAt 20 45 0 (- 5) False 0) twoBlocks twoBlockMap))) 5
   \<and> cameTo (player (fixedUpdate_p0 (V3 0 0 (- 1))
                (sceneEngine (playerAt 20 45 0 (- 5) False 0) twoBlocks twoBlockMap))) 5"
    by (simp add: oneBlock_box)
  from w m n show ?thesis by (simp only: simp_thms)
qed
section \<open>The generator as a list of block placements\<close>


lemma levelOf_Nil [simp]: "levelOf [] = \<lparr>blocksL = [], blockMapL = []\<rparr>"
  by (simp add: levelOf_def)

lemma levelOf_snoc: "levelOf (cs @ [c]) = putCell c (levelOf cs)"
  by (simp add: levelOf_def)

lemma putCell_blocks:
  "blocksL (putCell c lv) =
     blocksL lv @ [blockAt (fst (fst c)) (fst (snd (fst c))) (snd (snd (fst c))) (snd c) (length (blocksL lv))]"
  by (simp add: putCell_def addBlock_blockAt)

lemma putCell_map:
  "blockMapL (putCell c lv) =
     mapSet (blockMapL lv) (fst c)
       (blockAt (fst (fst c)) (fst (snd (fst c))) (snd (snd (fst c))) (snd c) (length (blocksL lv)))"
  by (simp add: putCell_def addBlock_blockAt)

lemma gridKey_blockAt [simp]: "gridKey (blockAt x y z t n) = (x, y, z)"
  by (simp add: gridKey_def)

lemma levelOf_length: "length (blocksL (levelOf cs)) = length cs"
  by (induction cs rule: rev_induct) (simp_all add: levelOf_snoc putCell_blocks)

lemma levelOf_keys: "map gridKey (blocksL (levelOf cs)) = map fst cs"
  by (induction cs rule: rev_induct) (simp_all add: levelOf_snoc putCell_blocks)

lemma levelOf_types: "map typeB (blocksL (levelOf cs)) = map snd cs"
  by (induction cs rule: rev_induct) (simp_all add: levelOf_snoc putCell_blocks)

lemma levelOf_ids: "map idB (blocksL (levelOf cs)) = [0..<length cs]"
  by (induction cs rule: rev_induct) (simp_all add: levelOf_snoc putCell_blocks levelOf_length)

lemma levelOf_map_dom: "fst ` set (blockMapL (levelOf cs)) = fst ` set cs"
  by (induction cs rule: rev_induct) (simp_all add: levelOf_snoc putCell_map mapSet_def dom_update)

lemma levelOf_mapHas: "mapHas (blockMapL (levelOf cs)) k \<longleftrightarrow> k \<in> fst ` set cs"
  by (simp add: mapHas_def map_of_eq_None_iff levelOf_map_dom)

lemma levelOf_take: "blocksL (levelOf (cs @ ds)) = blocksL (levelOf cs) @ drop (length cs) (blocksL (levelOf (cs @ ds)))"
proof -
  have "take (length cs) (blocksL (levelOf (cs @ ds))) = blocksL (levelOf cs)"
  proof (induction ds rule: rev_induct)
    case Nil
    then show ?case by (simp add: levelOf_length)
  next
    case (snoc d ds)
    then show ?case
      by (simp add: levelOf_snoc [of "cs @ ds", simplified] putCell_blocks levelOf_length)
  qed
  then show ?thesis by (metis append_take_drop_id)
qed

lemma levelOf_map_keys:
  "distinct (map fst cs) \<Longrightarrow> map fst (blockMapL (levelOf cs)) = map fst cs"
proof (induction cs rule: rev_induct)
  case Nil
  then show ?case by simp
next
  case (snoc c cs)
  then have "fst c \<notin> set (map fst (blockMapL (levelOf cs)))" by simp
  with snoc show ?case
    by (simp add: levelOf_snoc putCell_map mapSet_def update_keys)
qed

lemma levelOf_map_get:
  "distinct (map fst cs) \<Longrightarrow> i < length cs \<Longrightarrow>
     mapGet (blockMapL (levelOf cs)) (fst (cs ! i)) = Some (blocksL (levelOf cs) ! i)"
proof (induction cs rule: rev_induct)
  case Nil
  then show ?case by simp
next
  case (snoc c cs)
  show ?case
  proof (cases "i < length cs")
    case True
    then have "cs ! i \<in> set cs" by simp
    then have "fst (cs ! i) \<in> fst ` set cs" by (rule imageI)
    moreover have "fst c \<notin> fst ` set cs" using snoc.prems(1) by simp
    ultimately have "fst (cs ! i) \<noteq> fst c" by metis
    with snoc True show ?thesis
      by (simp add: levelOf_snoc putCell_map putCell_blocks mapSet_def mapGet_def update_conv'
          nth_append levelOf_length)
  next
    case False
    with snoc.prems have "i = length cs" by simp
    then show ?thesis
      by (simp add: levelOf_snoc putCell_map putCell_blocks mapSet_def mapGet_def update_conv'
          nth_append levelOf_length)
  qed
qed



lemma interp_append:
  "interp rnd d (p @ q) cs = interp rnd (d + draws p) q (interp rnd d p cs)"
proof (induction p arbitrary: d cs)
  case Nil
  show ?case by simp
next
  case (Cons a p)
  show ?case by (cases a) (simp_all add: Cons Let_def)
qed

lemma draws_append: "draws (p @ q) = draws p + draws q"
proof (induction p)
  case Nil
  show ?case by simp
next
  case (Cons a p)
  then show ?case by (cases a) simp_all
qed

lemma addBlock_putCell: "addBlock x y z t lv = putCell ((x, y, z), t) lv"
  by (simp add: putCell_def)

lemma spiralStep_levelOf:
  "spiralStep rnd i (levelOf cs, cy, d) =
     (levelOf (interp rnd d (stepProg (spiralCell i) i cy) cs), nextY i cy,
      d + draws (stepProg (spiralCell i) i cy))"
  by (simp add: spiralStep_def stepProg_def nextY_def Let_def addBlock_putCell
      levelOf_snoc [symmetric] levelOf_mapHas)

lemma fold_spiralStep:
  "fold (spiralStep rnd) steps (levelOf cs, cy, d) =
     (levelOf (interp rnd d (progOf spiralCell steps cy) cs), lastY steps cy,
      d + draws (progOf spiralCell steps cy))"
proof (induction steps arbitrary: cs cy d)
  case Nil
  show ?case by simp
next
  case (Cons i steps)
  show ?case
    by (simp add: spiralStep_levelOf Cons interp_append draws_append add.assoc)
qed

lemma five: "[- 2..2::int] = [- 2, - 1, 0, 1, 2]"
  by (simp add: upto.simps)

lemma basePlatform_cells: "basePlatform \<lparr>blocksL = [], blockMapL = []\<rparr> = levelOf baseCells"
  unfolding basePlatform_def baseCells_def five by (simp add: levelOf_def putCell_def)

lemma interp_capProg:
  "interp rnd d (capProg y) cs = cs @ [((0, y, 0), Standard), ((0, y + 1, 0), Spike)]"
  by (simp add: capProg_def)

lemma generate_cells:
  "generate rnd d =
     ((blocksL (levelOf (genCells rnd d)), blockMapL (levelOf (genCells rnd d)),
       real_of_int topY * blockSize),
      d + draws towerProg)"
  by (simp add: generate_def Let_def basePlatform_cells fold_spiralStep genCells_def
      towerProg_def topY_def interp_append interp_capProg addBlock_putCell
      levelOf_snoc [symmetric])

lemma interp_distinct:
  "safe poss p \<Longrightarrow> fst ` set cs \<subseteq> set poss \<Longrightarrow> distinct (map fst cs) \<Longrightarrow>
     distinct (map fst (interp rnd d p cs))"
proof (induction p arbitrary: poss cs d)
  case Nil
  then show ?case by simp
next
  case (Cons a p)
  show ?case
  proof (cases a)
    case (Put k t)
    with Cons.prems have s: "k \<notin> set poss" "safe (k # poss) p" by simp_all
    from s(1) Cons.prems(2) have "k \<notin> fst ` set cs" by blast
    with Cons.prems(3) have "distinct (map fst (cs @ [(k, t)]))" by simp
    moreover from Cons.prems(2) have "fst ` set (cs @ [(k, t)]) \<subseteq> set (k # poss)" by auto
    ultimately show ?thesis using Put Cons.IH [OF s(2)] by simp
  next
    case (PutIfFree k1 k2)
    with Cons.prems have s: "safe (k1 # k2 # poss) p" by simp
    let ?k = "if rnd d > 0.5 then k1 else k2"
    let ?cs = "if ?k \<in> fst ` set cs then cs else cs @ [(?k, Standard)]"
    from Cons.prems(2) have "fst ` set ?cs \<subseteq> set (k1 # k2 # poss)" by auto
    moreover from Cons.prems(3) have "distinct (map fst ?cs)" by simp
    ultimately have "distinct (map fst (interp rnd (Suc d) p ?cs))"
      by (rule Cons.IH [OF s])
    then show ?thesis unfolding PutIfFree interp.simps Let_def .
  qed
qed

lemma interp_depends:
  "(\<forall>k < draws p. rnd (d + k) = rnd' (d' + k)) \<Longrightarrow> interp rnd d p cs = interp rnd' d' p cs"
proof (induction p arbitrary: d d' cs)
  case Nil
  show ?case by simp
next
  case (Cons a p)
  show ?case
  proof (cases a)
    case (Put k t)
    with Cons show ?thesis by simp
  next
    case (PutIfFree k1 k2)
    with Cons.prems have 0: "rnd d = rnd' d'" and
      r: "\<forall>k < draws p. rnd (Suc d + k) = rnd' (Suc d' + k)"
      by (auto dest: spec [of _ 0])
    show ?thesis using PutIfFree Cons.IH [OF r] 0 by (simp add: Let_def)
  qed
qed



lemma layersFrom_append: "layersFrom m (p @ q) \<longleftrightarrow> layersFrom m p \<and> layersFrom m q"
proof (induction p)
  case Nil
  show ?case by simp
next
  case (Cons a p)
  then show ?case by (cases a) auto
qed

lemma nextY_ge: "cy \<le> nextY i cy"
  by (simp add: nextY_def)

lemma layersFrom_stepProg: "m \<le> cy \<Longrightarrow> layersFrom m (stepProg cell i cy)"
  by (simp add: stepProg_def)

lemma layersFrom_progOf: "m \<le> cy \<Longrightarrow> layersFrom m (progOf f steps cy)"
proof (induction steps arbitrary: cy)
  case Nil
  show ?case by simp
next
  case (Cons i steps)
  from Cons.prems have "m \<le> nextY i cy" using nextY_ge [of cy i] by linarith
  with Cons show ?case by (simp add: layersFrom_append layersFrom_stepProg)
qed

lemma lastY_ge: "cy \<le> lastY steps cy"
proof (induction steps arbitrary: cy)
  case Nil
  show ?case by simp
next
  case (Cons i steps)
  show ?case using Cons [of "nextY i cy"] nextY_ge [of cy i] by simp
qed

lemma interp_extends:
  "layersFrom m p \<Longrightarrow>
     \<exists>ds. interp rnd d p cs = cs @ ds \<and> list_all (\<lambda>c. m \<le> fst (snd (fst c))) ds"
proof (induction p arbitrary: cs d)
  case Nil
  show ?case by simp
next
  case (Cons a p)
  show ?case
  proof (cases a)
    case (Put k t)
    with Cons.prems have m: "m \<le> fst (snd k)" "layersFrom m p" by simp_all
    from Cons.IH [OF m(2), of d "cs @ [(k, t)]"] obtain ds where
      "interp rnd d p (cs @ [(k, t)]) = (cs @ [(k, t)]) @ ds"
      "list_all (\<lambda>c. m \<le> fst (snd (fst c))) ds" by blast
    with m(1) have "interp rnd d (a # p) cs = cs @ ((k, t) # ds) \<and>
        list_all (\<lambda>c. m \<le> fst (snd (fst c))) ((k, t) # ds)"
      using Put by simp
    then show ?thesis by blast
  next
    case (PutIfFree k1 k2)
    with Cons.prems have m: "m \<le> fst (snd k1)" "m \<le> fst (snd k2)" "layersFrom m p" by simp_all
    let ?k = "if rnd d > 0.5 then k1 else k2"
    have mk: "m \<le> fst (snd ?k)" using m by simp
    show ?thesis
    proof (cases "?k \<in> fst ` set cs")
      case True
      then have "interp rnd d (a # p) cs = interp rnd (Suc d) p cs"
        unfolding PutIfFree interp.simps Let_def by simp
      then show ?thesis using Cons.IH [OF m(3), of "Suc d" cs] by simp
    next
      case False
      then have e: "interp rnd d (a # p) cs = interp rnd (Suc d) p (cs @ [(?k, Standard)])"
        unfolding PutIfFree interp.simps Let_def by simp
      from Cons.IH [OF m(3), of "Suc d" "cs @ [(?k, Standard)]"] obtain ds where
        "interp rnd (Suc d) p (cs @ [(?k, Standard)]) = (cs @ [(?k, Standard)]) @ ds"
        "list_all (\<lambda>c. m \<le> fst (snd (fst c))) ds" by blast
      with mk have "interp rnd d (a # p) cs = cs @ ((?k, Standard) # ds) \<and>
          list_all (\<lambda>c. m \<le> fst (snd (fst c))) ((?k, Standard) # ds)"
        unfolding e by simp
      then show ?thesis by blast
    qed
  qed
qed

lemma draws_progOf: "draws (progOf f steps cy) = length (filter (\<lambda>i. i mod 6 = 0) steps)"
proof (induction steps arbitrary: cy)
  case Nil
  show ?case by simp
next
  case (Cons i steps)
  then show ?case by (simp add: draws_append stepProg_def)
qed

lemma draws_towerProg: "draws towerProg = 17"
  unfolding towerProg_def draws_progOf towerHeight_def by code_simp

lemma topY_ge: "2 \<le> topY"
  using lastY_ge [of 1 "[0..<towerHeight]"] by (simp add: topY_def)

lemma layersFrom_all: "layersFrom 1 (towerProg @ capProg topY)"
  using topY_ge by (simp add: layersFrom_append towerProg_def layersFrom_progOf capProg_def)

lemma length_baseCells: "length baseCells = 25"
  unfolding baseCells_def five by simp

lemma genCells_shape:
  "\<exists>ds. genCells rnd d = baseCells @ ds \<and> list_all (\<lambda>c. 1 \<le> fst (snd (fst c))) ds"
  unfolding genCells_def by (rule interp_extends [OF layersFrom_all])

lemma levelOf_gy: "map gy (blocksL (levelOf cs)) = map (\<lambda>c. fst (snd (fst c))) cs"
  by (induction cs rule: rev_induct) (simp_all add: levelOf_snoc putCell_blocks)

lemma levelOf_layers:
  "list_all (\<lambda>b. m \<le> gy b) (drop n (blocksL (levelOf cs)))
     \<longleftrightarrow> list_all (\<lambda>c. m \<le> fst (snd (fst c))) (drop n cs)"
proof -
  have "list_all (\<lambda>b. m \<le> gy b) (drop n (blocksL (levelOf cs)))
      \<longleftrightarrow> list_all (\<lambda>y. m \<le> y) (map gy (drop n (blocksL (levelOf cs))))"
    by (simp add: list.pred_map comp_def)
  also have "map gy (drop n (blocksL (levelOf cs))) = drop n (map (\<lambda>c. fst (snd (fst c))) cs)"
    by (simp add: drop_map [symmetric] levelOf_gy)
  also have "list_all (\<lambda>y. m \<le> y) (drop n (map (\<lambda>c. fst (snd (fst c))) cs))
      \<longleftrightarrow> list_all (\<lambda>c. m \<le> fst (snd (fst c))) (drop n cs)"
    by (simp add: drop_map list.pred_map comp_def)
  finally show ?thesis .
qed

lemma generate_base:
  "take 25 (fst (fst (generate rnd d))) = blocksL (levelOf baseCells)"
  "list_all (\<lambda>b. 1 \<le> gy b) (drop 25 (fst (fst (generate rnd d))))"
proof -
  from genCells_shape [of rnd d] obtain ds where
    g: "genCells rnd d = baseCells @ ds" and l: "list_all (\<lambda>c. 1 \<le> fst (snd (fst c))) ds"
    by blast
  have "take (length baseCells) (blocksL (levelOf (baseCells @ ds))) = blocksL (levelOf baseCells)"
    by (subst levelOf_take [of baseCells ds]) (simp add: levelOf_length)
  then show "take 25 (fst (fst (generate rnd d))) = blocksL (levelOf baseCells)"
    by (simp add: generate_cells g length_baseCells)
  have "list_all (\<lambda>c. 1 \<le> fst (snd (fst c))) (drop 25 (baseCells @ ds))"
    using l by (simp add: length_baseCells)
  then show "list_all (\<lambda>b. 1 \<le> gy b) (drop 25 (fst (fst (generate rnd d))))"
    by (simp add: generate_cells g levelOf_layers)
qed

section \<open>The base platform and the random draws\<close>


lemma wellFormed_blockAt [simp]: "wellFormed (blockAt x y z t n)"
  by (simp add: wellFormed_def)

lemma levelOf_wellFormed: "list_all wellFormed (blocksL (levelOf cs))"
  by (induction cs rule: rev_induct) (simp_all add: levelOf_snoc putCell_blocks)

lemma levelOf_nth:
  "i < length cs \<Longrightarrow>
     blocksL (levelOf cs) ! i
       = blockAt (fst (fst (cs ! i))) (fst (snd (fst (cs ! i)))) (snd (snd (fst (cs ! i))))
           (snd (cs ! i)) i"
proof (induction cs rule: rev_induct)
  case Nil
  then show ?case by simp
next
  case (snoc c cs)
  show ?case
  proof (cases "i < length cs")
    case True
    with snoc show ?thesis
      by (simp add: levelOf_snoc putCell_blocks nth_append levelOf_length)
  next
    case False
    with snoc.prems have "i = length cs" by simp
    then show ?thesis
      by (simp add: levelOf_snoc putCell_blocks nth_append levelOf_length)
  qed
qed

lemma base_keys:
  "map fst baseCells = concat (map (\<lambda>x. map (\<lambda>z. (x, 0, z)) [- 2..2]) [- 2..2])"
  unfolding baseCells_def five by simp

lemma base_types: "map snd baseCells = replicate 25 Standard"
  unfolding baseCells_def five by (simp add: numeral_eq_Suc)

lemma generate_depends:
  assumes "\<forall>k<17. rnd (d + k) = rnd' (d' + k)"
  shows "fst (generate rnd d) = fst (generate rnd' d')"
proof -
  have "draws (towerProg @ capProg topY) = 17"
    by (simp add: draws_append draws_towerProg capProg_def)
  with assms have "genCells rnd d = genCells rnd' d'"
    unfolding genCells_def by (intro interp_depends) simp
  then show ?thesis by (simp add: generate_cells)
qed

text \<open>
  Claim C7, in the form the code satisfies.  Every call of \<open>generate\<close> places the 25 base blocks first: they
  have the ids 0 to 24, are Standard, and lie on the cells \<open>(x, 0, z)\<close> for \<open>x\<close> and
  \<open>z\<close> from -2 to 2, one on each; every block is the cube of its cell; every later
  block lies on layer 1 or above.  The random source is the ambient one: a call draws 17
  values from it, and its result is determined by these 17 values, so that two calls that
  draw the same 17 values return the same blocks, index and win height.
\<close>

theorem generate_base_platform_and_draws:
  "map gridKey (take 25 (fst (fst (generate rnd d))))
     = concat (map (\<lambda>x. map (\<lambda>z. (x, 0, z)) [- 2..2]) [- 2..2])
   \<and> map typeB (take 25 (fst (fst (generate rnd d)))) = replicate 25 Standard
   \<and> map idB (take 25 (fst (fst (generate rnd d)))) = [0..<25]
   \<and> list_all wellFormed (fst (fst (generate rnd d)))
   \<and> list_all (\<lambda>b. 1 \<le> gy b) (drop 25 (fst (fst (generate rnd d))))
   \<and> snd (generate rnd d) = d + 17
   \<and> ((\<forall>k<17. rnd (d + k) = rnd' (d' + k)) \<longrightarrow>
        fst (generate rnd d) = fst (generate rnd' d'))"
proof (intro conjI impI)
  show "map gridKey (take 25 (fst (fst (generate rnd d))))
     = concat (map (\<lambda>x. map (\<lambda>z. (x, 0, z)) [- 2..2]) [- 2..2])"
    by (simp only: generate_base levelOf_keys base_keys)
  show "map typeB (take 25 (fst (fst (generate rnd d)))) = replicate 25 Standard"
    by (simp only: generate_base levelOf_types base_types)
  show "map idB (take 25 (fst (fst (generate rnd d)))) = [0..<25]"
    by (simp only: generate_base levelOf_ids length_baseCells)
  show "list_all wellFormed (fst (fst (generate rnd d)))"
    by (simp add: generate_cells levelOf_wellFormed)
  show "list_all (\<lambda>b. 1 \<le> gy b) (drop 25 (fst (fst (generate rnd d))))"
    by (rule generate_base)
  show "snd (generate rnd d) = d + 17"
    by (simp add: generate_cells draws_towerProg)
next
  assume "\<forall>k<17. rnd (d + k) = rnd' (d' + k)"
  then show "fst (generate rnd d) = fst (generate rnd' d')" by (rule generate_depends)
qed

lemma spiralCell_0: "spiralCell 0 = (4, 0)"
  by (simp add: spiralCell_def Let_def)

lemma towerProg_first:
  "towerProg = [Put (4, 1, 0) Standard, PutIfFree (5, 1, 0) (3, 1, 0)]
       @ progOf spiralCell [Suc 0..<towerHeight] 2"
proof -
  have "[0..<towerHeight] = 0 # [Suc 0..<towerHeight]"
    by (simp add: towerHeight_def upt_conv_Cons)
  then show ?thesis
    by (simp add: towerProg_def stepProg_def nextY_def spiralCell_0)
qed

lemma base_free: "(5, 1, 0) \<notin> fst ` set baseCells" "(3, 1, 0) \<notin> fst ` set baseCells"
  unfolding baseCells_def five by auto

lemma genCells_first:
  "\<exists>ds. genCells rnd d
     = baseCells @ [((4, 1, 0), Standard), ((if rnd d > 0.5 then 5 else 3, 1, 0), Standard)] @ ds"
proof -
  let ?rest = "progOf spiralCell [Suc 0..<towerHeight] 2 @ capProg topY"
  let ?cs = "baseCells @ [((4, 1, 0), Standard), ((if rnd d > 0.5 then 5 else 3, 1, 0), Standard)]"
  have "layersFrom 1 ?rest"
    using topY_ge by (simp add: layersFrom_append layersFrom_progOf capProg_def)
  from interp_extends [OF this, of rnd "Suc d" ?cs] obtain ds where
    e: "interp rnd (Suc d) ?rest ?cs = ?cs @ ds" by blast
  have "genCells rnd d = interp rnd (Suc d) ?rest ?cs"
    using base_free by (simp add: genCells_def towerProg_first Let_def)
  with e show ?thesis by auto
qed

lemma generate_27th:
  "fst (fst (generate rnd d)) ! 26 = blockAt (if rnd d > 0.5 then 5 else 3) 1 0 Standard 26"
proof -
  from genCells_first [of rnd d] obtain ds where
    g: "genCells rnd d
     = baseCells @ [((4, 1, 0), Standard), ((if rnd d > 0.5 then 5 else 3, 1, 0), Standard)] @ ds"
    by blast
  have l: "26 < length (genCells rnd d)" by (simp add: g length_baseCells)
  have n: "genCells rnd d ! 26 = ((if rnd d > 0.5 then 5 else 3, 1, 0), Standard)"
    by (simp add: g nth_append length_baseCells)
  show ?thesis using levelOf_nth [OF l] by (simp add: generate_cells n)
qed

text \<open>
  Claim C7 as stated fails: \<open>generate\<close> takes no random source, and two successive calls
  on the one source of the platform read different values.  When the first value is 0.9 and
  the eighteenth 0.1, the first call puts its 27th block on the cell \<open>(5, 1, 0)\<close> and the
  second call on \<open>(3, 1, 0)\<close>.
\<close>

theorem successive_calls_differ_counterexample:
  "snd (generate rndHiLo 0) = 17
   \<and> fst (fst (generate rndHiLo 0)) ! 26 = blockAt 5 1 0 Standard 26
   \<and> fst (fst (generate rndHiLo (snd (generate rndHiLo 0)))) ! 26 = blockAt 3 1 0 Standard 26
   \<and> fst (generate rndHiLo 0) \<noteq> fst (generate rndHiLo (snd (generate rndHiLo 0)))"
proof -
  have s: "snd (generate rndHiLo 0) = 17"
    by (simp add: generate_cells draws_towerProg)
  have a: "fst (fst (generate rndHiLo 0)) ! 26 = blockAt 5 1 0 Standard 26"
    by (simp add: generate_27th rndHiLo_def)
  have b: "fst (fst (generate rndHiLo 17)) ! 26 = blockAt 3 1 0 Standard 26"
    by (simp add: generate_27th rndHiLo_def)
  have "blockAt 5 1 0 Standard 26 \<noteq> blockAt 3 1 0 Standard 26"
    by (simp add: blockAt_def)
  with a b have "fst (generate rndHiLo 0) \<noteq> fst (generate rndHiLo 17)" by metis
  with s a b show ?thesis by simp
qed

text \<open>Two sources that agree on the 17 values read.\<close>

theorem generate_base_platform_and_draws_witness:
  "list_all (\<lambda>k. rndHiLo k = 0.9) [0..<17]
   \<and> fst (generate rndHiLo 0) = fst (generate (\<lambda>k. 0.9) 5)
   \<and> snd (generate rndHiLo 0) = 17
   \<and> map gridKey (take 25 (fst (fst (generate rndHiLo 0))))
       = concat (map (\<lambda>x. map (\<lambda>z. (x, 0, z)) [- 2..2]) [- 2..2])"
proof -
  note t = generate_base_platform_and_draws [of rndHiLo 0 "\<lambda>k. 0.9" 5]
  have h: "\<forall>k<17. rndHiLo (0 + k) = (\<lambda>k. 0.9) (5 + k)" by (simp add: rndHiLo_def)
  have l: "list_all (\<lambda>k. rndHiLo k = 0.9) [0..<17]"
    by (simp add: list_all_iff rndHiLo_def)
  from t h have e: "fst (generate rndHiLo 0) = fst (generate (\<lambda>k. 0.9) 5)" by blast
  from t have s: "snd (generate rndHiLo 0) = 17" by simp
  from t have k: "map gridKey (take 25 (fst (fst (generate rndHiLo 0))))
       = concat (map (\<lambda>x. map (\<lambda>z. (x, 0, z)) [- 2..2]) [- 2..2])" by (rule conjunct1)
  show ?thesis by (rule conjI [OF l conjI [OF e conjI [OF s k]]])
qed

section \<open>The cells of the spiral\<close>

text \<open>
  The hundred values of \<open>spiralCell\<close>, from bounds of the real cosine and sine: the
  Maclaurin polynomials bound them at the two base angles, the addition formulas carry the
  bounds along the multiples, and each product with the radius lies within less than 1/2
  of the integer of the table.
\<close>


lemma SC_pos: "0 < (of_int SC :: real)"
  by (simp add: SC_def)

lemma SC2_eq: "(of_int SC2 :: real) = of_int SC * of_int SC"
  by (simp add: SC_def SC2_def)

lemma rot_real:
  fixes a t c s e c0 s0 e0 :: real
  assumes "\<bar>cos a - c\<bar> \<le> e" "\<bar>sin a - s\<bar> \<le> e" "\<bar>cos t - c0\<bar> \<le> e0" "\<bar>sin t - s0\<bar> \<le> e0"
  shows "\<bar>cos (a + t) - (c * c0 - s * s0)\<bar> \<le> 2 * e0 + (\<bar>c0\<bar> + \<bar>s0\<bar>) * e"
    and "\<bar>sin (a + t) - (s * c0 + c * s0)\<bar> \<le> 2 * e0 + (\<bar>c0\<bar> + \<bar>s0\<bar>) * e"
proof -
  have e0: "0 \<le> e0" using assms(3) by linarith
  have e: "0 \<le> e" using assms(1) by linarith
  have p1: "\<bar>cos a * (cos t - c0)\<bar> \<le> e0"
  proof -
    have "\<bar>cos a * (cos t - c0)\<bar> = \<bar>cos a\<bar> * \<bar>cos t - c0\<bar>" by (rule abs_mult)
    also have "\<dots> \<le> 1 * e0" by (intro mult_mono assms) simp_all
    finally show ?thesis by simp
  qed
  have p2: "\<bar>sin a * (sin t - s0)\<bar> \<le> e0"
  proof -
    have "\<bar>sin a * (sin t - s0)\<bar> = \<bar>sin a\<bar> * \<bar>sin t - s0\<bar>" by (rule abs_mult)
    also have "\<dots> \<le> 1 * e0" by (intro mult_mono assms) simp_all
    finally show ?thesis by simp
  qed
  have p3: "\<bar>sin a * (cos t - c0)\<bar> \<le> e0"
  proof -
    have "\<bar>sin a * (cos t - c0)\<bar> = \<bar>sin a\<bar> * \<bar>cos t - c0\<bar>" by (rule abs_mult)
    also have "\<dots> \<le> 1 * e0" by (intro mult_mono assms) simp_all
    finally show ?thesis by simp
  qed
  have p4: "\<bar>cos a * (sin t - s0)\<bar> \<le> e0"
  proof -
    have "\<bar>cos a * (sin t - s0)\<bar> = \<bar>cos a\<bar> * \<bar>sin t - s0\<bar>" by (rule abs_mult)
    also have "\<dots> \<le> 1 * e0" by (intro mult_mono assms) simp_all
    finally show ?thesis by simp
  qed
  have q1: "\<bar>c0 * (cos a - c)\<bar> \<le> \<bar>c0\<bar> * e"
    unfolding abs_mult by (intro mult_left_mono assms) simp
  have q2: "\<bar>s0 * (sin a - s)\<bar> \<le> \<bar>s0\<bar> * e"
    unfolding abs_mult by (intro mult_left_mono assms) simp
  have q3: "\<bar>c0 * (sin a - s)\<bar> \<le> \<bar>c0\<bar> * e"
    unfolding abs_mult by (intro mult_left_mono assms) simp
  have q4: "\<bar>s0 * (cos a - c)\<bar> \<le> \<bar>s0\<bar> * e"
    unfolding abs_mult by (intro mult_left_mono assms) simp
  have "cos (a + t) - (c * c0 - s * s0)
      = cos a * (cos t - c0) + c0 * (cos a - c) - sin a * (sin t - s0) - s0 * (sin a - s)"
    by (simp add: cos_add algebra_simps)
  then have "\<bar>cos (a + t) - (c * c0 - s * s0)\<bar>
      \<le> \<bar>cos a * (cos t - c0)\<bar> + \<bar>c0 * (cos a - c)\<bar> + \<bar>sin a * (sin t - s0)\<bar> + \<bar>s0 * (sin a - s)\<bar>"
    by linarith
  with p1 p2 q1 q2 show "\<bar>cos (a + t) - (c * c0 - s * s0)\<bar> \<le> 2 * e0 + (\<bar>c0\<bar> + \<bar>s0\<bar>) * e"
    by (simp add: algebra_simps)
  have "sin (a + t) - (s * c0 + c * s0)
      = sin a * (cos t - c0) + c0 * (sin a - s) + cos a * (sin t - s0) + s0 * (cos a - c)"
    by (simp add: sin_add algebra_simps)
  then have "\<bar>sin (a + t) - (s * c0 + c * s0)\<bar>
      \<le> \<bar>sin a * (cos t - c0)\<bar> + \<bar>c0 * (sin a - s)\<bar> + \<bar>cos a * (sin t - s0)\<bar> + \<bar>s0 * (cos a - c)\<bar>"
    by linarith
  with p3 p4 q3 q4 show "\<bar>sin (a + t) - (s * c0 + c * s0)\<bar> \<le> 2 * e0 + (\<bar>c0\<bar> + \<bar>s0\<bar>) * e"
    by (simp add: algebra_simps)
qed

lemma div_SC_bounds:
  "(of_int (x div SC) :: real) \<le> of_int x / of_int SC"
  "(of_int x / of_int SC :: real) < of_int (x div SC) + 1"
proof -
  have f: "(of_int (x div SC) :: real) = of_int \<lfloor>(of_int x / of_int SC :: real)\<rfloor>"
    by (simp add: floor_divide_of_int_eq)
  show "(of_int (x div SC) :: real) \<le> of_int x / of_int SC"
    unfolding f by (rule of_int_floor_le)
  show "(of_int x / of_int SC :: real) < of_int (x div SC) + 1"
    unfolding f by linarith
qed

lemma scaled_step:
  fixes v :: real and x y e0 :: int
  assumes "\<bar>v - of_int x / (of_int SC * of_int SC)\<bar>
             \<le> 2 * (of_int e0 / of_int SC) + of_int y / (of_int SC * of_int SC)"
  shows "\<bar>v - of_int (x div SC) / of_int SC\<bar> \<le> of_int (2 * e0 + y div SC + 2) / of_int SC"
proof -
  let ?S = "of_int SC :: real"
  have S: "0 < ?S" by (rule SC_pos)
  have x1: "of_int (x div SC) / ?S \<le> of_int x / (?S * ?S)"
    using div_SC_bounds(1) [of x] S by (simp add: field_simps)
  have x2: "of_int x / (?S * ?S) < (of_int (x div SC) + 1) / ?S"
    using div_SC_bounds(2) [of x] S by (simp add: field_simps)
  have y2: "of_int y / (?S * ?S) < (of_int (y div SC) + 1) / ?S"
    using div_SC_bounds(2) [of y] S by (simp add: field_simps)
  have d: "(of_int (x div SC) + 1) / ?S = of_int (x div SC) / ?S + 1 / ?S"
    by (simp add: add_divide_distrib)
  have "\<bar>of_int x / (?S * ?S) - of_int (x div SC) / ?S\<bar> \<le> 1 / ?S"
    using x1 x2 unfolding d by linarith
  with assms have "\<bar>v - of_int (x div SC) / ?S\<bar>
      \<le> 2 * (of_int e0 / ?S) + of_int y / (?S * ?S) + 1 / ?S" by linarith
  also have "\<dots> \<le> 2 * (of_int e0 / ?S) + (of_int (y div SC) + 1) / ?S + 1 / ?S"
    using y2 by linarith
  also have "\<dots> = of_int (2 * e0 + y div SC + 2) / ?S"
    by (simp add: add_divide_distrib)
  finally show ?thesis .
qed

lemma rotate_sound:
  assumes "approximates b t" "approximates p a"
  shows "approximates (rotate b p) (a + t)"
proof -
  let ?S = "of_int SC :: real"
  obtain c0 s0 e0 where b: "b = (c0, s0, e0)" by (cases b) auto
  obtain c s e where p: "p = (c, s, e)" by (cases p) auto
  from assms have
    A: "\<bar>cos a - of_int c / ?S\<bar> \<le> of_int e / ?S" "\<bar>sin a - of_int s / ?S\<bar> \<le> of_int e / ?S"
      "\<bar>cos t - of_int c0 / ?S\<bar> \<le> of_int e0 / ?S" "\<bar>sin t - of_int s0 / ?S\<bar> \<le> of_int e0 / ?S"
    by (simp_all add: approximates_def b p)
  have S: "0 < ?S" by (rule SC_pos)
  have w: "(\<bar>of_int c0 / ?S\<bar> + \<bar>of_int s0 / ?S\<bar>) * (of_int e / ?S)
        = of_int ((\<bar>c0\<bar> + \<bar>s0\<bar>) * e) / (?S * ?S)"
    using S by (simp add: field_simps abs_mult)
  have c1: "of_int c / ?S * (of_int c0 / ?S) - of_int s / ?S * (of_int s0 / ?S)
        = of_int (c * c0 - s * s0) / (?S * ?S)"
    using S by (simp add: field_simps)
  have s1: "of_int s / ?S * (of_int c0 / ?S) + of_int c / ?S * (of_int s0 / ?S)
        = of_int (s * c0 + c * s0) / (?S * ?S)"
    using S by (simp add: field_simps)
  from rot_real [OF A] have
    "\<bar>cos (a + t) - of_int (c * c0 - s * s0) / (?S * ?S)\<bar>
       \<le> 2 * (of_int e0 / ?S) + of_int ((\<bar>c0\<bar> + \<bar>s0\<bar>) * e) / (?S * ?S)"
    "\<bar>sin (a + t) - of_int (s * c0 + c * s0) / (?S * ?S)\<bar>
       \<le> 2 * (of_int e0 / ?S) + of_int ((\<bar>c0\<bar> + \<bar>s0\<bar>) * e) / (?S * ?S)"
    unfolding w c1 s1 by simp_all
  then show ?thesis
    unfolding approximates_def rotate_def b p fst_conv snd_conv
    by (intro conjI scaled_step)
qed

lemma iter_length: "length (iter b n p) = n"
  by (induction n arbitrary: p) simp_all

lemma iter_sound:
  "approximates b t \<Longrightarrow> approximates p a \<Longrightarrow> k < n \<Longrightarrow>
     approximates (iter b n p ! k) (a + real k * t)"
proof (induction n arbitrary: p a k)
  case 0
  then show ?case by simp
next
  case (Suc n)
  show ?case
  proof (cases k)
    case 0
    with Suc.prems show ?thesis by simp
  next
    case (Suc j)
    with Suc.prems have j: "j < n" by simp
    from Suc.IH [OF Suc.prems(1) rotate_sound [OF Suc.prems(1,2)] j]
    have "approximates (iter b n (rotate b p) ! j) (a + t + real j * t)" .
    moreover have "a + t + real j * t = a + real k * t" by (simp add: Suc algebra_simps)
    ultimately show ?thesis by (simp add: Suc)
  qed
qed

lemma start_approximates: "approximates (SC, 0, 0) 0"
  by (simp add: approximates_def SC_def)



lemma Maclaurin_cos_bound:
  "\<bar>cos x - (\<Sum>m<n. cos_coeff m * x ^ m)\<bar> \<le> inverse (fact n) * \<bar>x\<bar> ^ n"
proof -
  from Maclaurin_cos_expansion [of x n] obtain t where
    c: "cos x = (\<Sum>m<n. cos_coeff m * x ^ m) + (cos (t + 1/2 * real n * pi) / fact n) * x ^ n"
    by blast
  have "\<bar>cos x - (\<Sum>m<n. cos_coeff m * x ^ m)\<bar> = \<bar>(cos (t + 1/2 * real n * pi) / fact n) * x ^ n\<bar>"
    unfolding c by simp
  also have "\<dots> = \<bar>cos (t + 1/2 * real n * pi)\<bar> * (inverse (fact n) * \<bar>x\<bar> ^ n)"
    unfolding abs_mult abs_divide power_abs by (simp add: field_simps)
  also have "\<dots> \<le> 1 * (inverse (fact n) * \<bar>x\<bar> ^ n)"
    by (intro mult_right_mono) simp_all
  finally show ?thesis by simp
qed

lemma sum_16:
  fixes f :: "nat \<Rightarrow> real"
  shows "(\<Sum>m<16. f m) = f 0 + f 1 + f 2 + f 3 + f 4 + f 5 + f 6 + f 7 + f 8 + f 9 + f 10 + f 11
     + f 12 + f 13 + f 14 + f 15"
  by (simp add: eval_nat_numeral)

lemma cos_sum_A: "\<bar>(\<Sum>m<16. cos_coeff m * (7/20 :: real) ^ m) - 93937271284737892003 / 100000000000000000000\<bar>
    \<le> 1 / 100000000000000000000"
  unfolding sum_16 by (simp add: cos_coeff_def fact_numeral power_divide)

lemma sin_sum_A: "\<bar>(\<Sum>m<16. sin_coeff m * (7/20 :: real) ^ m) - 34289780745545134918 / 100000000000000000000\<bar>
    \<le> 1 / 100000000000000000000"
  unfolding sum_16 by (simp add: sin_coeff_def fact_numeral power_divide)

lemma rest_A: "inverse (fact 16) * \<bar>7/20 :: real\<bar> ^ 16 \<le> 1 / 100000000000000000000"
  by (simp add: fact_numeral power_divide)


lemma sum_12:
  fixes f :: "nat \<Rightarrow> real"
  shows "(\<Sum>m<12. f m) = f 0 + f 1 + f 2 + f 3 + f 4 + f 5 + f 6 + f 7 + f 8 + f 9 + f 10 + f 11"
  by (simp add: eval_nat_numeral)

lemma cos_sum_B: "\<bar>(\<Sum>m<12. cos_coeff m * (1/10 :: real) ^ m) - 99500416527802576609 / 100000000000000000000\<bar>
    \<le> 1 / 100000000000000000000"
  unfolding sum_12 by (simp add: cos_coeff_def fact_numeral power_divide)

lemma sin_sum_B: "\<bar>(\<Sum>m<12. sin_coeff m * (1/10 :: real) ^ m) - 9983341664682815230 / 100000000000000000000\<bar>
    \<le> 1 / 100000000000000000000"
  unfolding sum_12 by (simp add: sin_coeff_def fact_numeral power_divide)

lemma rest_B: "inverse (fact 12) * \<bar>1/10 :: real\<bar> ^ 12 \<le> 1 / 100000000000000000000"
  by (simp add: fact_numeral power_divide)

lemma baseA_approximates: "approximates baseA (7/20)"
proof -
  have c: "\<bar>cos (7/20 :: real) - (\<Sum>m<16. cos_coeff m * (7/20) ^ m)\<bar> \<le> 1 / 100000000000000000000"
    using Maclaurin_cos_bound [of "7/20" 16] rest_A by linarith
  have s: "\<bar>sin (7/20 :: real) - (\<Sum>m<16. sin_coeff m * (7/20) ^ m)\<bar> \<le> 1 / 100000000000000000000"
    using Maclaurin_sin_bound [of "7/20" 16] rest_A by linarith
  have "\<bar>cos (7/20 :: real) - 93937271284737892003 / 100000000000000000000\<bar> \<le> 2 / 100000000000000000000"
    using c cos_sum_A by linarith
  moreover have "\<bar>sin (7/20 :: real) - 34289780745545134918 / 100000000000000000000\<bar> \<le> 2 / 100000000000000000000"
    using s sin_sum_A by linarith
  ultimately show ?thesis by (simp add: approximates_def baseA_def SC_def)
qed

lemma baseB_approximates: "approximates baseB (1/10)"
proof -
  have c: "\<bar>cos (1/10 :: real) - (\<Sum>m<12. cos_coeff m * (1/10) ^ m)\<bar> \<le> 1 / 100000000000000000000"
    using Maclaurin_cos_bound [of "1/10" 12] rest_B by linarith
  have s: "\<bar>sin (1/10 :: real) - (\<Sum>m<12. sin_coeff m * (1/10) ^ m)\<bar> \<le> 1 / 100000000000000000000"
    using Maclaurin_sin_bound [of "1/10" 12] rest_B by linarith
  have "\<bar>cos (1/10 :: real) - 99500416527802576609 / 100000000000000000000\<bar> \<le> 2 / 100000000000000000000"
    using c cos_sum_B by linarith
  moreover have "\<bar>sin (1/10 :: real) - 9983341664682815230 / 100000000000000000000\<bar> \<le> 2 / 100000000000000000000"
    using s sin_sum_B by linarith
  ultimately show ?thesis by (simp add: approximates_def baseB_def SC_def)
qed

lemma product_close:
  fixes u v c s2 e e2 w :: real
  assumes "\<bar>u - c\<bar> \<le> e" "\<bar>v - s2\<bar> \<le> e2" "\<bar>u\<bar> \<le> 1" "w = 4 + s2 * 1.5"
  shows "\<bar>u * (4 + v * 1.5) - c * w\<bar> \<le> 1.5 * e2 + e * \<bar>w\<bar>"
proof -
  have "u * (4 + v * 1.5) - c * w = u * (1.5 * (v - s2)) + (u - c) * w"
    unfolding assms(4) by (simp add: field_simps)
  then have "\<bar>u * (4 + v * 1.5) - c * w\<bar> \<le> \<bar>u * (1.5 * (v - s2))\<bar> + \<bar>(u - c) * w\<bar>"
    by linarith
  moreover have "\<bar>u * (1.5 * (v - s2))\<bar> \<le> 1 * (1.5 * e2)"
    unfolding abs_mult using assms(2,3) by (intro mult_mono) simp_all
  moreover have "\<bar>(u - c) * w\<bar> \<le> e * \<bar>w\<bar>"
    unfolding abs_mult using assms(1) by (intro mult_right_mono) simp_all
  ultimately show ?thesis by linarith
qed

lemma round_close:
  fixes x :: real and V n err :: int
  assumes "\<bar>x - of_int V / (2 * of_int SC2)\<bar> \<le> of_int err / (2 * of_int SC2)"
    and "\<bar>V - 2 * n * SC2\<bar> + err < SC2"
  shows "round x = n"
proof (rule round_unique')
  let ?D = "2 * of_int SC2 :: real"
  have D: "0 < ?D" by (simp add: SC2_def)
  have "of_int (\<bar>V - 2 * n * SC2\<bar> + err) < (of_int SC2 :: real)"
    using assms(2) by (simp only: of_int_less_iff)
  then have "\<bar>of_int V - ?D * of_int n\<bar> + of_int err < (of_int SC2 :: real)"
    by (simp add: algebra_simps)
  then have "(\<bar>of_int V - ?D * of_int n\<bar> + of_int err) / ?D < of_int SC2 / ?D"
    using D by (simp only: divide_strict_right_mono)
  moreover have "of_int SC2 / ?D = (1/2 :: real)" by (simp add: SC2_def)
  moreover have "(\<bar>of_int V - ?D * of_int n\<bar> + of_int err) / ?D
      = \<bar>of_int V / ?D - of_int n\<bar> + of_int err / ?D"
  proof -
    have "\<bar>of_int V / ?D - of_int n\<bar> = \<bar>(of_int V - ?D * of_int n) / ?D\<bar>"
      using D by (simp add: field_simps)
    also have "\<dots> = \<bar>of_int V - ?D * of_int n\<bar> / ?D"
      using D by (simp only: abs_divide abs_of_pos)
    finally show ?thesis by (simp add: add_divide_distrib)
  qed
  ultimately have "\<bar>of_int V / ?D - of_int n\<bar> + of_int err / ?D < 1/2" by simp
  with assms(1) show "\<bar>x - of_int n\<bar> < 1/2" by linarith
qed

lemma cell_sound:
  assumes "approximates pA a" "approximates pB b" "marginOK (pA, pB) (n, m)"
  shows "(round (cos a * (4 + sin b * 1.5)), round (sin a * (4 + sin b * 1.5))) = (n, m)"
proof -
  let ?S = "of_int SC :: real"
  obtain c s e where pA: "pA = (c, s, e)" by (cases pA) auto
  obtain c2 s2 e2 where pB: "pB = (c2, s2, e2)" by (cases pB) auto
  define w where "w = 8 * SC + 3 * s2"
  define err where "err = 3 * e2 * SC + e * \<bar>w\<bar>"
  have S: "0 < ?S" by (rule SC_pos)
  from assms(1) have A: "\<bar>cos a - of_int c / ?S\<bar> \<le> of_int e / ?S"
      "\<bar>sin a - of_int s / ?S\<bar> \<le> of_int e / ?S"
    by (simp_all add: approximates_def pA)
  from assms(2) have B: "\<bar>sin b - of_int s2 / ?S\<bar> \<le> of_int e2 / ?S"
    by (simp add: approximates_def pB)
  from assms(3) have M: "\<bar>c * w - 2 * n * SC2\<bar> + err < SC2" "\<bar>s * w - 2 * m * SC2\<bar> + err < SC2"
    unfolding marginOK_def Let_def by (simp_all add: pA pB w_def err_def)
  have wr: "of_int w / (2 * ?S) = 4 + of_int s2 / ?S * 1.5"
    using S by (simp add: w_def field_simps)
  have er: "1.5 * (of_int e2 / ?S) + of_int e / ?S * \<bar>of_int w / (2 * ?S)\<bar>
      = of_int err / (2 * of_int SC2)"
    using S by (simp add: err_def SC2_eq abs_divide abs_mult field_simps)
  have cw: "of_int c / ?S * (of_int w / (2 * ?S)) = of_int (c * w) / (2 * of_int SC2)"
    using S by (simp add: SC2_eq field_simps)
  have sw: "of_int s / ?S * (of_int w / (2 * ?S)) = of_int (s * w) / (2 * of_int SC2)"
    using S by (simp add: SC2_eq field_simps)
  have "\<bar>cos a * (4 + sin b * 1.5) - of_int (c * w) / (2 * of_int SC2)\<bar>
      \<le> of_int err / (2 * of_int SC2)"
    using product_close [OF A(1) B _ wr] unfolding er cw by simp
  from round_close [OF this M(1)] have rc: "round (cos a * (4 + sin b * 1.5)) = n" .
  have "\<bar>sin a * (4 + sin b * 1.5) - of_int (s * w) / (2 * of_int SC2)\<bar>
      \<le> of_int err / (2 * of_int SC2)"
    using product_close [OF A(2) B _ wr] unfolding er sw by simp
  from round_close [OF this M(2)] have rs: "round (sin a * (4 + sin b * 1.5)) = m" .
  show ?thesis unfolding rc rs ..
qed

lemma iter_chainA: "iter baseA 100 (SC, 0, 0) = chainA"
  by code_simp

lemma iter_chainB: "iter baseB 100 (SC, 0, 0) = chainB"
  by code_simp

lemma margins: "list_all2 marginOK (zip chainA chainB) spiralTable"
  by code_simp

lemma chain_lengths: "length chainA = 100" "length chainB = 100" "length spiralTable = 100"
  by (simp_all add: iter_chainA [symmetric] iter_chainB [symmetric] iter_length spiralTable_def)

lemma spiralCell_nth:
  assumes "i < 100"
  shows "spiralCell i = spiralTable ! i"
proof -
  have a: "approximates (chainA ! i) (real i * 0.35)"
    using iter_sound [OF baseA_approximates start_approximates assms] by (simp add: iter_chainA)
  have b: "approximates (chainB ! i) (real i * 0.1)"
    using iter_sound [OF baseB_approximates start_approximates assms] by (simp add: iter_chainB)
  have "i < length (zip chainA chainB)" using assms by (simp add: chain_lengths)
  from list_all2_nthD [OF margins this]
  have "marginOK (zip chainA chainB ! i) (spiralTable ! i)" .
  then have "marginOK (chainA ! i, chainB ! i) (fst (spiralTable ! i), snd (spiralTable ! i))"
    using assms by (simp add: chain_lengths)
  from cell_sound [OF a b this] show ?thesis by (simp add: spiralCell_def Let_def)
qed

lemma spiral_table: "map spiralCell [0..<100] = spiralTable"
  by (rule nth_equalityI) (simp_all add: chain_lengths spiralCell_nth)

section \<open>The index\<close>


lemma progOf_cong:
  "(\<forall>i \<in> set steps. f i = g i) \<Longrightarrow> progOf f steps cy = progOf g steps cy"
  by (induction steps arbitrary: cy) simp_all

lemma towerProg_table: "towerProg = progOf (\<lambda>i. spiralTable ! i) [0..<100] 1"
  unfolding towerProg_def towerHeight_def
  by (rule progOf_cong) (simp add: spiralCell_nth)

lemma topY_value: "topY = 41"
  unfolding topY_def towerHeight_def by code_simp

lemma tower_safe:
  "safe (map fst baseCells) (progOf (\<lambda>i. spiralTable ! i) [0..<100] 1 @ capProg 41)"
  by code_simp

lemma base_distinct: "distinct (map fst baseCells)"
  unfolding baseCells_def five by simp

lemma genCells_distinct: "distinct (map fst (genCells rnd d))"
  unfolding genCells_def
proof (rule interp_distinct)
  show "safe (map fst baseCells) (towerProg @ capProg topY)"
    unfolding towerProg_table topY_value by (rule tower_safe)
  show "fst ` set baseCells \<subseteq> set (map fst baseCells)" by simp
  show "distinct (map fst baseCells)" by (rule base_distinct)
qed

lemma levelOf_map_values:
  "distinct (map fst cs) \<Longrightarrow> map snd (blockMapL (levelOf cs)) = blocksL (levelOf cs)"
proof (induction cs rule: rev_induct)
  case Nil
  then show ?case by simp
next
  case (snoc c cs)
  then have n: "fst c \<notin> fst ` set (blockMapL (levelOf cs))" by (simp add: levelOf_map_dom)
  have u: "AList.update k v al = al @ [(k, v)]" if "k \<notin> fst ` set al" for k v and al :: "(key \<times> BlockData) list"
    using that by (induction al) auto
  from snoc show ?case
    by (simp add: levelOf_snoc putCell_map putCell_blocks mapSet_def u [OF n])
qed

text \<open>
  Claim C9.  In the result of \<open>generate\<close>, whatever the random source returns, no two
  blocks share a grid coordinate; the index lists, in the order of insertion, exactly the
  grid coordinates of the blocks with the blocks themselves as values, so its size is the
  number of blocks and no insertion has replaced an entry; and looking up the coordinate
  of any block yields that block.
\<close>

theorem index_unique:
  "distinct (map gridKey (fst (fst (generate rnd d))))
   \<and> map fst (fst (snd (fst (generate rnd d)))) = map gridKey (fst (fst (generate rnd d)))
   \<and> map snd (fst (snd (fst (generate rnd d)))) = fst (fst (generate rnd d))
   \<and> mapSize (fst (snd (fst (generate rnd d)))) = length (fst (fst (generate rnd d)))
   \<and> list_all (\<lambda>b. mapGet (fst (snd (fst (generate rnd d)))) (gridKey b) = Some b)
        (fst (fst (generate rnd d)))"
proof -
  let ?cs = "genCells rnd d"
  let ?L = "levelOf ?cs"
  have d: "distinct (map fst ?cs)" by (rule genCells_distinct)
  have b: "fst (fst (generate rnd d)) = blocksL ?L" by (simp add: generate_cells)
  have m: "fst (snd (fst (generate rnd d))) = blockMapL ?L" by (simp add: generate_cells)
  have k: "map fst (blockMapL ?L) = map gridKey (blocksL ?L)"
    by (simp add: levelOf_map_keys [OF d] levelOf_keys)
  have v: "map snd (blockMapL ?L) = blocksL ?L" by (rule levelOf_map_values [OF d])
  have l: "mapSize (blockMapL ?L) = length (blocksL ?L)"
    using arg_cong [OF k, of length] by (simp add: mapSize_def)
  have g: "list_all (\<lambda>b. mapGet (blockMapL ?L) (gridKey b) = Some b) (blocksL ?L)"
    unfolding list_all_length
  proof (intro allI impI)
    fix n assume "n < length (blocksL ?L)"
    then have n: "n < length ?cs" by (simp add: levelOf_length)
    have "gridKey (blocksL ?L ! n) = fst (?cs ! n)"
      using n arg_cong [OF levelOf_keys [of ?cs], of "\<lambda>xs. xs ! n"]
      by (simp add: levelOf_length)
    then show "mapGet (blockMapL ?L) (gridKey (blocksL ?L ! n)) = Some (blocksL ?L ! n)"
      using levelOf_map_get [OF d n] by simp
  qed
  have "distinct (map gridKey (blocksL ?L))" using d by (simp add: levelOf_keys)
  with k v l g show ?thesis unfolding b m by blast
qed


end
